theory Spec2Isabelle
  imports Main "HOL-Library.Word" "HOL-Library.AList" "HOL-Library.Product_Lexorder"
begin

section \<open>Data model of the document engine\<close>

text \<open>
  Node ids and property names are JavaScript strings, a path is an array of them, and a
  text is a JavaScript string, that is a sequence of 16-bit code units (\<open>charCodeAt\<close> reads
  one unit). Offsets are JavaScript numbers; the editing code only adds and compares them,
  so they are integers here.
\<close>

type_synonym node_id = string
type_synonym path = "string list"
type_synonym jstring = "16 word list"

datatype error = Error string | TypeError string | NotFoundError string

record coordinate =
  path :: path
  offset :: int

text \<open>
  The selection variants of \<open>model/Selection\<close> as the editing code sees them: a property
  selection carries its path, both offsets and an optional container path; a container
  selection its container path and two coordinates; a node selection its container path,
  node id and mode.
\<close>

datatype selection =
    NullSelection
  | PropertySelection path int int "path option"
  | ContainerSelection path coordinate coordinate
  | NodeSelection path node_id string
  | CustomSelection

text \<open>
  An annotation node: \<open>start\<close> and \<open>end\<close> coordinates, the result of \<open>isInlineNode()\<close>
  and the static flag \<open>autoExpandRight\<close> of its class.
\<close>

record annotation =
  anno_id :: node_id
  anno_type :: string
  start :: coordinate
  end_c :: coordinate
  isInlineNode :: bool
  autoExpandRight :: bool

datatype node_kind = TextKind | ListKind | OtherKind

record node =
  ntype :: string
  kind :: node_kind
  content :: jstring

text \<open>
  The transaction document \<open>tx\<close>: the nodes by id (in enumeration order), the container
  properties (arrays of node ids) by path, the annotations, and the selection.
\<close>

record tx =
  nodes :: "(node_id \<times> node) list"
  containers :: "(path \<times> node_id list) list"
  annos :: "annotation list"
  selection :: selection

definition isText :: "node \<Rightarrow> bool" where
  "isText n = (kind n = TextKind)"

definition isList :: "node \<Rightarrow> bool" where
  "isList n = (kind n = ListKind)"

text \<open>\<open>TextNode.getPath()\<close>: text nodes keep their plain text in the property \<open>content\<close>
  (\<open>createTextNode\<close> and \<open>_breakTextNode\<close> in \<open>Editing.js\<close> create them so).\<close>

definition getPath :: "node_id \<Rightarrow> path" where
  "getPath i = [i, ''content'']"

text \<open>\<open>tx.get(path)\<close> for a text property: the text, or \<open>undefined\<close> (here \<open>None\<close>).\<close>

definition get_text :: "tx \<Rightarrow> path \<Rightarrow> jstring option" where
  "get_text t p =
     (case p of
        [i, prop] \<Rightarrow>
          (case map_of (nodes t) i of
             Some n \<Rightarrow> if prop = ''content'' \<and> isText n then Some (content n) else None
           | None \<Rightarrow> None)
      | _ \<Rightarrow> None)"

definition set_content :: "node_id \<Rightarrow> jstring \<Rightarrow> (node_id \<times> node) list \<Rightarrow> (node_id \<times> node) list" where
  "set_content i c ns = map (\<lambda>(k, n). if k = i then (k, n\<lparr>content := c\<rparr>) else (k, n)) ns"

text \<open>
  Modelled from the spec: \<open>Document.update\<close> is not among the sources. Section 4.1 gives
  the typed diff operations on a text property, \<open>insert(pos, value)\<close> and
  \<open>delete(start, end)\<close>; they are modelled as the corresponding slices of the text. An
  update of a path that addresses no text property fails.
\<close>

datatype text_op = TextDelete int int | TextInsert int jstring

fun apply_text_op :: "text_op \<Rightarrow> jstring \<Rightarrow> jstring" where
  "apply_text_op (TextDelete s e) c = take (nat s) c @ drop (nat e) c"
| "apply_text_op (TextInsert s x) c = take (nat s) c @ x @ drop (nat s) c"

definition update_text :: "tx \<Rightarrow> path \<Rightarrow> text_op \<Rightarrow> error + tx" where
  "update_text t p opn =
     (case get_text t p of
        None \<Rightarrow> Inl (Error ''update: no text property at path'')
      | Some c \<Rightarrow> Inr (t\<lparr>nodes := set_content (hd p) (apply_text_op opn c) (nodes t)\<rparr>))"

text \<open>
  Modelled from the spec: the coordinate operation \<open>shift(value)\<close> of section 4.1
  (``offset adjustment'') adds \<open>value\<close> to the offset of the addressed coordinate;
  \<open>tx.update([anno.id, 'start'], {type: 'shift', value})\<close> applies it to the start of the
  annotation with that id, and likewise for \<open>'end'\<close>.
\<close>

definition shift_coordinate :: "int \<Rightarrow> coordinate \<Rightarrow> coordinate" where
  "shift_coordinate v c = c\<lparr>offset := offset c + v\<rparr>"

definition update_start_shift :: "node_id \<Rightarrow> int \<Rightarrow> tx \<Rightarrow> tx" where
  "update_start_shift i v t =
     t\<lparr>annos := map (\<lambda>a. if anno_id a = i then a\<lparr>start := shift_coordinate v (start a)\<rparr> else a) (annos t)\<rparr>"

definition update_end_shift :: "node_id \<Rightarrow> int \<Rightarrow> tx \<Rightarrow> tx" where
  "update_end_shift i v t =
     t\<lparr>annos := map (\<lambda>a. if anno_id a = i then a\<lparr>end_c := shift_coordinate v (end_c a)\<rparr> else a) (annos t)\<rparr>"

text \<open>\<open>tx.delete(anno.id)\<close> on an annotation node removes it from the document.\<close>

definition delete_anno :: "node_id \<Rightarrow> tx \<Rightarrow> tx" where
  "delete_anno i t = t\<lparr>annos := filter (\<lambda>a. anno_id a \<noteq> i) (annos t)\<rparr>"

text \<open>\<open>tx.get(id)\<close> on an annotation id: the annotation, or \<open>undefined\<close>.\<close>

definition get_anno :: "tx \<Rightarrow> node_id \<Rightarrow> annotation option" where
  "get_anno t i = find (\<lambda>a. anno_id a = i) (annos t)"

text \<open>
  Modelled from the spec: \<open>tx.getAnnotations(path)\<close> (section 6, read API) returns the
  ordered sequence of the annotations anchored on the property, that is those whose
  \<open>start.path\<close> is the path.
\<close>

definition getAnnotations :: "tx \<Rightarrow> path \<Rightarrow> annotation list" where
  "getAnnotations t p = filter (\<lambda>a. path (start a) = p) (annos t)"

definition setSelection :: "selection \<Rightarrow> tx \<Rightarrow> tx" where
  "setSelection s t = t\<lparr>selection := s\<rparr>"


text \<open>\<open>isCollapsed\<close> (section 4.2): start equals end.\<close>

definition isCollapsed :: "coordinate \<Rightarrow> coordinate \<Rightarrow> bool" where
  "isCollapsed st en = (path st = path en \<and> offset st = offset en)"

section \<open>Editing: inserting text\<close>

text \<open>
  The body of the \<open>annos.forEach\<close> loop of \<open>Editing._insertText\<close>, branch by branch in the
  order of the source.
\<close>

definition insertText_anno :: "int \<Rightarrow> int \<Rightarrow> bool \<Rightarrow> int \<Rightarrow> annotation \<Rightarrow> tx \<Rightarrow> tx" where
  "insertText_anno startOffset endOffset typeover L anno t =
     (let annoStart = offset (start anno); annoEnd = offset (end_c anno) in
      if annoEnd < startOffset then t
      else if annoStart \<ge> endOffset then
        update_end_shift (anno_id anno) (startOffset - endOffset + L)
          (update_start_shift (anno_id anno) (startOffset - endOffset + L) t)
      else if (annoStart \<ge> startOffset \<and> annoEnd < endOffset) \<or>
              (isInlineNode anno \<and> annoStart \<ge> startOffset \<and> annoEnd \<le> endOffset) then
        delete_anno (anno_id anno) t
      else if annoStart \<ge> startOffset \<and> annoEnd \<ge> endOffset then
        update_end_shift (anno_id anno) (startOffset - endOffset + L)
          (if annoStart > startOffset \<or> \<not> typeover
           then update_start_shift (anno_id anno) (startOffset - annoStart + L) t
           else t)
      else if annoStart < startOffset \<and> annoEnd < endOffset then
        update_end_shift (anno_id anno) (startOffset - annoEnd + L) t
      else if annoEnd = startOffset \<and> \<not> autoExpandRight anno then t
      else if annoStart < startOffset \<and> annoEnd \<ge> endOffset then
        (if isInlineNode anno then t
         else update_end_shift (anno_id anno) (startOffset - endOffset + L) t)
      else t)"



section \<open>Editing: deleting a character\<close>

text \<open>
  \<open>text.charCodeAt(i)\<close>: the code unit at index \<open>i\<close>, or \<open>NaN\<close> (here \<open>None\<close>) outside the
  text. Every comparison with \<open>NaN\<close> is false.
\<close>

definition charCodeAt :: "jstring \<Rightarrow> int \<Rightarrow> nat option" where
  "charCodeAt s i = (if 0 \<le> i \<and> i < int (length s) then Some (unat (s ! nat i)) else None)"

definition priv_isLowSurrogate :: "nat option \<Rightarrow> bool" where
  "priv_isLowSurrogate charCode =
     (case charCode of None \<Rightarrow> False | Some c \<Rightarrow> c \<ge> 55296 \<and> c \<le> 56319)"

definition priv_isHighSurrogate :: "nat option \<Rightarrow> bool" where
  "priv_isHighSurrogate charCode =
     (case charCode of None \<Rightarrow> False | Some c \<Rightarrow> c \<ge> 56320 \<and> c \<le> 57343)"

text \<open>
  The range that \<open>Editing.delete\<close> removes for a collapsed cursor at \<open>offset\<close> that is not at
  a boundary: one code unit before or behind the cursor, widened so that a surrogate pair
  is not cut. The result is \<open>(start.offset, end.offset)\<close>.
\<close>

definition delete_range :: "jstring \<Rightarrow> int \<Rightarrow> string \<Rightarrow> int \<times> int" where
  "delete_range txt off direction =
     (let startOffset = (if direction = ''left'' then off - 1 else off);
          endOffset = startOffset + 1;
          charCode = charCodeAt txt startOffset
      in if priv_isLowSurrogate charCode then
           (let nextCharCode = charCodeAt txt endOffset
            in if priv_isHighSurrogate nextCharCode then (startOffset, endOffset + 1)
               else (startOffset, endOffset))
         else if priv_isHighSurrogate charCode then (startOffset - 1, endOffset)
         else (startOffset, endOffset))"

text \<open>
  Modelled from the spec: \<open>documentHelpers.deleteTextRange\<close> is not among the sources. By
  sections 4.1 and 4.5 it applies the typed operation \<open>delete(start, end)\<close> to the text
  property and repositions every annotation anchored on the property; the repositioning
  is taken to be the one of \<open>_insertText\<close> for an inserted length of zero.
\<close>

definition deleteTextRange :: "tx \<Rightarrow> path \<Rightarrow> int \<Rightarrow> int \<Rightarrow> error + tx" where
  "deleteTextRange t p s e =
     (case update_text t p (TextDelete s e) of
        Inl err \<Rightarrow> Inl err
      | Inr t1 \<Rightarrow> Inr (fold (insertText_anno s e (s \<noteq> e) 0) (getAnnotations t1 p) t1))"

text \<open>
  The part of \<open>Editing.delete\<close> for a collapsed cursor at \<open>(p, off)\<close> with the optional
  container path \<open>cp\<close>. Reading \<open>text.length\<close> of a text that does not exist is a
  \<open>TypeError\<close>. The merge at a boundary inside a container (\<open>toggleList\<close> and \<open>_merge\<close>,
  which work on lists and other node types) is passed in as \<open>mergeBranch\<close>.
\<close>

definition delete_collapsed ::
  "(tx \<Rightarrow> string \<Rightarrow> error + tx) \<Rightarrow> tx \<Rightarrow> path \<Rightarrow> int \<Rightarrow> path option \<Rightarrow> string \<Rightarrow> error + tx" where
  "delete_collapsed mergeBranch t p off cp direction =
     (let txt = get_text t p in
      if off = 0 \<and> direction = ''left'' then
        (if cp \<noteq> None then mergeBranch t direction else Inr t)
      else
        (case txt of
           None \<Rightarrow> Inl (TypeError ''Cannot read properties of undefined (reading length)'')
         | Some c \<Rightarrow>
             (if cp \<noteq> None \<and> off = int (length c) \<and> direction = ''right''
              then mergeBranch t direction
              else if off = int (length c) \<and> direction = ''right'' then Inr t
              else
                (case delete_range c off direction of
                   (s, e) \<Rightarrow>
                     (case deleteTextRange t p s e of
                        Inl err \<Rightarrow> Inl err
                      | Inr t1 \<Rightarrow> Inr (setSelection (PropertySelection p s s cp) t1))))))"

text \<open>\<open>sel.collapse('left')\<close>: the cursor at the start of the selection.\<close>

fun collapse_left :: "selection \<Rightarrow> selection" where
  "collapse_left (PropertySelection p s e cp) = PropertySelection p s s cp"
| "collapse_left (ContainerSelection cp st en) = ContainerSelection cp st st"
| "collapse_left sel = sel"

text \<open>
  \<open>Editing.delete(tx, direction)\<close>, dispatching on the selection of the transaction in the
  order of the source. \<open>_deleteNodeSelection\<close> and \<open>_deleteContainerSelection\<close> are passed
  in. A null selection answers no to every test and ends in the last branch, which only
  logs a warning.
\<close>

definition delete ::
  "(tx \<Rightarrow> string \<Rightarrow> error + tx) \<Rightarrow> (tx \<Rightarrow> string \<Rightarrow> error + tx) \<Rightarrow> (tx \<Rightarrow> error + tx) \<Rightarrow>
   tx \<Rightarrow> string \<Rightarrow> error + tx" where
  "delete deleteNodeSelection mergeBranch deleteContainerSelection t direction =
     (case selection t of
        NodeSelection cp i m \<Rightarrow> deleteNodeSelection t direction
      | CustomSelection \<Rightarrow> Inr t
      | PropertySelection p s e cp \<Rightarrow>
          (if s = e then delete_collapsed mergeBranch t p s cp direction
           else (case deleteTextRange t p s e of
                   Inl err \<Rightarrow> Inl err
                 | Inr t1 \<Rightarrow> Inr (setSelection (collapse_left (selection t)) t1)))
      | ContainerSelection cp st en \<Rightarrow>
          (if isCollapsed st en
           then delete_collapsed mergeBranch t (path st) (offset st) (Some cp) direction
           else deleteContainerSelection t)
      | NullSelection \<Rightarrow> Inr t)"

text \<open>
  Well-formed UTF-16: every lead surrogate (\<open>D800\<close> to \<open>DBFF\<close>, which the source calls
  ``low'') is followed by a trail surrogate (\<open>DC00\<close> to \<open>DFFF\<close>, ``high'' in the source), and
  every trail surrogate follows a lead surrogate.
\<close>

definition is_lead :: "16 word \<Rightarrow> bool" where
  "is_lead c = priv_isLowSurrogate (Some (unat c))"

definition is_trail :: "16 word \<Rightarrow> bool" where
  "is_trail c = priv_isHighSurrogate (Some (unat c))"

fun well_formed :: "jstring \<Rightarrow> bool" where
  "well_formed [] = True"
| "well_formed [x] = (\<not> is_lead x \<and> \<not> is_trail x)"
| "well_formed (x # y # r) =
     (if is_lead x then is_trail y \<and> well_formed r
      else \<not> is_trail x \<and> well_formed (y # r))"

section \<open>Example documents\<close>




text \<open>The paragraph \<open>p1\<close> holding \<open>a\<close>, one surrogate pair and \<open>b\<close>, the cursor behind
  the pair.\<close>

definition example_emoji :: tx where
  "example_emoji =
     \<lparr>nodes = [(''p1'', \<lparr>ntype = ''paragraph'', kind = TextKind,
                         content = [97, 55357, 56832, 98]\<rparr>)],
      containers = [([''body'', ''nodes''], [''p1''])],
      annos = [],
      selection = PropertySelection [''p1'', ''content''] 3 3 None\<rparr>"

text \<open>A stand-in for the branches of \<open>delete\<close> that are passed in: it always fails, so a
  run that succeeds has not called it.\<close>

definition failing :: "tx \<Rightarrow> string \<Rightarrow> error + tx" where
  "failing t d = Inl (Error ''not reached'')"



text \<open>The paragraph with the surrogate pair again, with a collapsed container selection
  in front of the pair.\<close>

definition example_emoji_container :: tx where
  "example_emoji_container =
     \<lparr>nodes = [(''p1'', \<lparr>ntype = ''paragraph'', kind = TextKind,
                         content = [97, 55357, 56832, 98]\<rparr>)],
      containers = [([''body'', ''nodes''], [''p1''])],
      annos = [],
      selection = ContainerSelection [''body'', ''nodes'']
                    \<lparr>path = [''p1'', ''content''], offset = 1\<rparr>
                    \<lparr>path = [''p1'', ''content''], offset = 1\<rparr>\<rparr>"

section \<open>DocumentSession: committing changes, history\<close>

text \<open>
  A \<open>DocumentChange\<close> as far as the session reads it: the primitive operations, the
  timestamp set at commit, the ids of the updated nodes and the free-form info.
\<close>

datatype operation = OpCreate node_id | OpDelete node_id | OpSet path | OpUpdate path

record change =
  ops :: "operation list"
  timestamp :: "int option"
  updated :: "node_id list"
  info :: string

text \<open>
  The session with what it acts on: its history, the changes applied to the document by
  \<open>doc._apply\<close>, the changes delivered to the listeners of the document, and the
  \<open>change\<close> events the session has emitted.
\<close>

record session =
  history :: "change list"
  applied :: "change list"
  notified :: "change list"
  emitted :: "change list"

text \<open>\<open>_onDocumentChange(change)\<close>: a change is recorded when it is defined and has operations.\<close>

definition priv_onDocumentChange :: "change option \<Rightarrow> session \<Rightarrow> session" where
  "priv_onDocumentChange ch s =
     (case ch of
        None \<Rightarrow> s
      | Some c \<Rightarrow> if length (ops c) > 0 then s\<lparr>history := history s @ [c]\<rparr> else s)"

text \<open>
  Modelled from the spec: \<open>Document._notifyChangeListeners\<close> is not among the sources. By
  section 6 the change is delivered synchronously to the registered listeners; the
  constructor of the session has registered \<open>_onDocumentChange\<close> for \<open>document:changed\<close>, so
  the delivery reaches it.
\<close>

definition notifyChangeListeners :: "change \<Rightarrow> session \<Rightarrow> session" where
  "notifyChangeListeners c s = priv_onDocumentChange (Some c) (s\<lparr>notified := notified s @ [c]\<rparr>)"

definition emit_change :: "change \<Rightarrow> session \<Rightarrow> session" where
  "emit_change c s = s\<lparr>emitted := emitted s @ [c]\<rparr>"

text \<open>\<open>_applyChange(change, info)\<close>: fails on a missing change, else applies it to the document,
  notifies the listeners of the document and emits \<open>change\<close>.\<close>

definition priv_applyChange :: "change option \<Rightarrow> session \<Rightarrow> error + session" where
  "priv_applyChange ch s =
     (case ch of
        None \<Rightarrow> Inl (Error ''Invalid change'')
      | Some c \<Rightarrow> Inr (emit_change c (notifyChangeListeners c (s\<lparr>applied := applied s @ [c]\<rparr>))))"

text \<open>\<open>_commitChange(change, info)\<close>: stamps the change with \<open>Date.now()\<close> (writing a property
  of a missing change is a \<open>TypeError\<close>) and applies it.\<close>

definition priv_commitChange :: "change option \<Rightarrow> int \<Rightarrow> session \<Rightarrow> error + session" where
  "priv_commitChange ch now s =
     (case ch of
        None \<Rightarrow> Inl (TypeError ''Cannot set properties of undefined (setting timestamp)'')
      | Some c \<Rightarrow> priv_applyChange (Some (c\<lparr>timestamp := Some now\<rparr>)) s)"

text \<open>
  \<open>updateNodeStates(tuples, options)\<close>: a pseudo change without operations that lists the
  existing nodes among the tuples as updated; unless silent it is delivered to the
  listeners of the document and emitted. \<open>exists\<close> stands for \<open>doc.get(id)\<close>.
\<close>

definition updateNodeStates :: "(node_id \<Rightarrow> bool) \<Rightarrow> node_id list \<Rightarrow> bool \<Rightarrow> session \<Rightarrow> session" where
  "updateNodeStates exists ids silent s =
     (let c = \<lparr>ops = [], timestamp = None, updated = filter exists ids,
                info = ''node-state-update''\<rparr>
      in if \<not> silent then emit_change c (notifyChangeListeners c s) else s)"

text \<open>A run of commits, one after the other: the changes with their commit times.\<close>

fun commit_all :: "(change \<times> int) list \<Rightarrow> session \<Rightarrow> error + session" where
  "commit_all [] s = Inr s"
| "commit_all ((c, now) # cs) s =
     (case priv_commitChange (Some c) now s of
        Inl e \<Rightarrow> Inl e
      | Inr s' \<Rightarrow> commit_all cs s')"

definition stamped :: "change \<times> int \<Rightarrow> change" where
  "stamped cn = (fst cn)\<lparr>timestamp := Some (snd cn)\<rparr>"

definition empty_session :: session where
  "empty_session = \<lparr>history = [], applied = [], notified = [], emitted = []\<rparr>"

definition empty_change :: change where
  "empty_change = \<lparr>ops = [], timestamp = None, updated = [], info = []\<rparr>"

definition some_change :: change where
  "some_change = \<lparr>ops = [OpCreate ''p5''], timestamp = None, updated = [], info = []\<rparr>"

section \<open>Component: rendering\<close>

text \<open>
  A component as far as \<open>_render\<close> reads it: the flag \<open>__isRendering__\<close>; everything else
  is the extension of the record. The rendering engine is a function on components that
  may throw (\<open>Some\<close> error) and may have changed the component before throwing.
\<close>

record component =
  isRendering :: bool

definition priv_render ::
  "('a component_scheme \<Rightarrow> error option \<times> 'a component_scheme) \<Rightarrow>
   'a component_scheme \<Rightarrow> error option \<times> 'a component_scheme" where
  "priv_render engine c =
     (if isRendering c then (Some (Error ''Component is rendering already.''), c)
      else (case engine (c\<lparr>isRendering := True\<rparr>) of
              (r, c') \<Rightarrow> (r, c'\<lparr>isRendering := False\<rparr>)))"

definition throwing_engine :: "component \<Rightarrow> error option \<times> component" where
  "throwing_engine c = (Some (Error ''render failed''), c)"


section \<open>Editing: breaking and merging text nodes\<close>

text \<open>
  Modelled from the spec: \<open>documentHelpers.insertAt\<close> and \<open>removeAt\<close> are not among the
  sources. They apply the typed array operations of section 4.1 to a container property:
  \<open>insert(pos, value)\<close> puts the id at position \<open>pos\<close>, \<open>delete(pos)\<close> takes the id at
  \<open>pos\<close> out. A path that addresses no container fails.
\<close>

definition insertAt :: "tx \<Rightarrow> path \<Rightarrow> nat \<Rightarrow> node_id \<Rightarrow> error + tx" where
  "insertAt t cp pos i =
     (case map_of (containers t) cp of
        None \<Rightarrow> Inl (Error ''update: no container at path'')
      | Some ids \<Rightarrow>
          Inr (t\<lparr>containers := AList.update cp (take pos ids @ [i] @ drop pos ids) (containers t)\<rparr>))"

definition removeAt :: "tx \<Rightarrow> path \<Rightarrow> nat \<Rightarrow> error + tx" where
  "removeAt t cp pos =
     (case map_of (containers t) cp of
        None \<Rightarrow> Inl (Error ''update: no container at path'')
      | Some ids \<Rightarrow>
          Inr (t\<lparr>containers := AList.update cp (take pos ids @ drop (Suc pos) ids) (containers t)\<rparr>))"

text \<open>
  Modelled from the spec: \<open>node.getPosition()\<close> is not among the sources. By section 3 the
  position of a node is its index in the array of references that owns it, here the
  container at \<open>cp\<close>; a node that is not in the container has none.
\<close>

fun index_of :: "'a \<Rightarrow> 'a list \<Rightarrow> nat option" where
  "index_of x [] = None"
| "index_of x (y # ys) = (if x = y then Some 0 else map_option Suc (index_of x ys))"

definition getPosition :: "tx \<Rightarrow> path \<Rightarrow> node_id \<Rightarrow> nat option" where
  "getPosition t cp i =
     (case map_of (containers t) cp of None \<Rightarrow> None | Some ids \<Rightarrow> index_of i ids)"

text \<open>
  Modelled from the spec: \<open>tx.create(nodeData)\<close> (section 4.1) installs the node under its
  id. The id of a new node comes from \<open>uuid\<close> and is a parameter of the operations below.
\<close>

definition create :: "node_id \<Rightarrow> node \<Rightarrow> tx \<Rightarrow> tx" where
  "create i n t = t\<lparr>nodes := AList.update i n (nodes t)\<rparr>"

text \<open>
  Modelled from the spec: \<open>annotationHelpers.transferAnnotations(tx, path, offset, newPath,
  newOffset)\<close> is not among the sources. By section 4.5, rules (2) and (3), it moves the
  annotations of the property \<open>path\<close> that are positioned at or after \<open>offset\<close> to
  \<open>newPath\<close>, where they start at \<open>newOffset\<close> and keep their relative offsets. The spec
  says nothing of an annotation that starts before \<open>offset\<close>; it is left as it is.
\<close>

definition transferAnnotations :: "tx \<Rightarrow> path \<Rightarrow> int \<Rightarrow> path \<Rightarrow> int \<Rightarrow> tx" where
  "transferAnnotations t p off newPath newOffset =
     t\<lparr>annos := map (\<lambda>a. if path (start a) = p \<and> off \<le> offset (start a)
                          then a\<lparr>start := \<lparr>path = newPath, offset = newOffset + (offset (start a) - off)\<rparr>,
                                 end_c := \<lparr>path = newPath, offset = newOffset + (offset (end_c a) - off)\<rparr>\<rparr>
                          else a) (annos t)\<rparr>"

text \<open>
  Modelled from the spec: \<open>documentHelpers.deepDeleteNode\<close> is not among the sources. By
  section 4.5, rule (1), it deletes the node with its owned subtree and all annotations
  attached within it; a text node owns no other node, and by section 3 the annotations
  attached to it are those whose \<open>start.path[0]\<close> is its id.
\<close>

definition anno_parent :: "annotation \<Rightarrow> node_id option" where
  "anno_parent a = (case path (start a) of [] \<Rightarrow> None | i # _ \<Rightarrow> Some i)"

definition deepDeleteNode :: "node_id \<Rightarrow> tx \<Rightarrow> tx" where
  "deepDeleteNode i t =
     t\<lparr>nodes := AList.delete i (nodes t),
       annos := filter (\<lambda>a. anno_parent a \<noteq> Some i) (annos t)\<rparr>"

text \<open>
  \<open>Editing._breakTextNode(tx, node, coor, containerPath)\<close> for the text node with id \<open>i\<close>.
  \<open>newId\<close> is the id that \<open>uuid\<close> (or \<open>tx.create\<close>) gives the new node and
  \<open>defaultTextType\<close> the default text type of the container property.
\<close>

definition priv_breakTextNode ::
  "node_id \<Rightarrow> string \<Rightarrow> tx \<Rightarrow> node_id \<Rightarrow> coordinate \<Rightarrow> path \<Rightarrow> error + tx" where
  "priv_breakTextNode newId defaultTextType t i coor cp =
     (case map_of (nodes t) i of
        None \<Rightarrow> Inl (TypeError ''node is undefined'')
      | Some n \<Rightarrow>
          (case getPosition t cp i of
             None \<Rightarrow> Inl (Error ''node has no position in the container'')
           | Some nodePos \<Rightarrow>
               (let p = path coor; off = offset coor; txt = content n in
                if off = 0 then
                  (case insertAt (create newId (n\<lparr>content := []\<rparr>) t) cp nodePos newId of
                     Inl e \<Rightarrow> Inl e
                   | Inr t2 \<Rightarrow> Inr (setSelection (PropertySelection p 0 0 (Some cp)) t2))
                else
                  (let newNode = n\<lparr>content := drop (nat off) txt,
                                   ntype := (if off = int (length txt) then defaultTextType
                                             else ntype n)\<rparr>;
                       t1 = create newId newNode t
                   in (case (if off < int (length txt)
                             then update_text (transferAnnotations t1 p off (getPath newId) 0) p
                                    (TextDelete off (int (length txt)))
                             else Inr t1) of
                         Inl e \<Rightarrow> Inl e
                       | Inr t2 \<Rightarrow>
                           (case insertAt t2 cp (nodePos + 1) newId of
                              Inl e \<Rightarrow> Inl e
                            | Inr t3 \<Rightarrow>
                                Inr (setSelection
                                       (PropertySelection (getPath newId) 0 0 (Some cp)) t3)))))))"

text \<open>\<open>TextNode.isEmpty()\<close>: the text is empty.\<close>

definition isEmpty :: "node \<Rightarrow> bool" where
  "isEmpty n = (content n = [])"

text \<open>
  \<open>Editing._mergeNodes(tx, containerPath, pos, direction)\<close>. The merge of two text nodes is
  embedded; the branches for an empty first node (which needs \<open>setCursor\<close>), for lists and
  for other node types are passed in as \<open>other\<close>. Calling a method of a node that
  does not exist is a \<open>TypeError\<close>.
\<close>

definition priv_mergeNodes ::
  "(tx \<Rightarrow> path \<Rightarrow> nat \<Rightarrow> string \<Rightarrow> error + tx) \<Rightarrow> tx \<Rightarrow> path \<Rightarrow> nat \<Rightarrow> string \<Rightarrow> error + tx" where
  "priv_mergeNodes other t cp pos direction =
     (case map_of (containers t) cp of
        None \<Rightarrow> Inl (TypeError ''container is undefined'')
      | Some nodeIds \<Rightarrow>
          (if \<not> pos < length nodeIds then Inl (TypeError ''first is undefined'')
           else
             (case map_of (nodes t) (nodeIds ! pos) of
                None \<Rightarrow> Inl (TypeError ''first is undefined'')
              | Some first \<Rightarrow>
                  (if isText first then
                     (if isEmpty first then other t cp pos direction
                      else
                        (let secondPos = pos + 1;
                             targetPath = getPath (nodeIds ! pos);
                             targetLength = int (length (content first))
                         in if \<not> secondPos < length nodeIds
                            then Inl (TypeError ''second is undefined'')
                            else
                              (case map_of (nodes t) (nodeIds ! secondPos) of
                                 None \<Rightarrow> Inl (TypeError ''second is undefined'')
                               | Some second \<Rightarrow>
                                   (if isText second then
                                      (let sourcePath = getPath (nodeIds ! secondPos) in
                                       case removeAt t cp secondPos of
                                         Inl e \<Rightarrow> Inl e
                                       | Inr t1 \<Rightarrow>
                                           (case update_text t1 targetPath
                                                   (TextInsert targetLength (content second)) of
                                              Inl e \<Rightarrow> Inl e
                                            | Inr t2 \<Rightarrow>
                                                Inr (setSelection
                                                       (PropertySelection targetPath targetLength
                                                          targetLength (Some cp))
                                                       (deepDeleteNode (nodeIds ! secondPos)
                                                          (transferAnnotations t2 sourcePath 0
                                                             targetPath targetLength)))))
                                    else other t cp pos direction))))
                   else other t cp pos direction))))"

text \<open>Two paragraphs in the container \<open>body.nodes\<close>: \<open>p1\<close> with \<open>abcd\<close> and the
  annotations \<open>[0,1)\<close> and \<open>[2,4)\<close>, \<open>p2\<close> with \<open>ef\<close> and the annotation \<open>[1,2)\<close>.\<close>

definition example_two :: tx where
  "example_two =
     \<lparr>nodes = [(''p1'', \<lparr>ntype = ''paragraph'', kind = TextKind, content = [97, 98, 99, 100]\<rparr>),
               (''p2'', \<lparr>ntype = ''paragraph'', kind = TextKind, content = [101, 102]\<rparr>)],
      containers = [([''body'', ''nodes''], [''p1'', ''p2''])],
      annos = [\<lparr>anno_id = ''a1'', anno_type = ''strong'',
                start = \<lparr>path = [''p1'', ''content''], offset = 0\<rparr>,
                end_c = \<lparr>path = [''p1'', ''content''], offset = 1\<rparr>,
                isInlineNode = False, autoExpandRight = False\<rparr>,
               \<lparr>anno_id = ''a2'', anno_type = ''strong'',
                start = \<lparr>path = [''p1'', ''content''], offset = 2\<rparr>,
                end_c = \<lparr>path = [''p1'', ''content''], offset = 4\<rparr>,
                isInlineNode = False, autoExpandRight = False\<rparr>,
               \<lparr>anno_id = ''a3'', anno_type = ''emphasis'',
                start = \<lparr>path = [''p2'', ''content''], offset = 1\<rparr>,
                end_c = \<lparr>path = [''p2'', ''content''], offset = 2\<rparr>,
                isInlineNode = False, autoExpandRight = False\<rparr>],
      selection = PropertySelection [''p1'', ''content''] 2 2 (Some [''body'', ''nodes''])\<rparr>"

text \<open>A stand-in for the branches of \<open>_mergeNodes\<close> that are passed in; it always fails.\<close>

definition unreached :: "tx \<Rightarrow> path \<Rightarrow> nat \<Rightarrow> string \<Rightarrow> error + tx" where
  "unreached t cp pos d = Inl (Error ''not reached'')"

definition example_a2' :: annotation where
  "example_a2' = \<lparr>anno_id = ''a2'', anno_type = ''strong'',
                start = \<lparr>path = [''p1'', ''content''], offset = 2\<rparr>,
                end_c = \<lparr>path = [''p1'', ''content''], offset = 4\<rparr>,
                isInlineNode = False, autoExpandRight = False\<rparr>"

definition example_a3 :: annotation where
  "example_a3 = \<lparr>anno_id = ''a3'', anno_type = ''emphasis'',
                start = \<lparr>path = [''p2'', ''content''], offset = 1\<rparr>,
                end_c = \<lparr>path = [''p2'', ''content''], offset = 2\<rparr>,
                isInlineNode = False, autoExpandRight = False\<rparr>"


section \<open>Annotation helpers: fusing annotations\<close>

text \<open>
  Modelled from the spec: \<open>annotationHelpers.fuseAnnotation\<close> is not among the sources
  (only its caller \<open>AnnotationCommand.executeFuse\<close> and its tests are). Section 4.2 orders
  two coordinates of one container by the container index of \<open>path[0]\<close>, then by offset; a
  coordinate whose node is not in the container cannot be compared.
\<close>

definition coor_key :: "node_id list \<Rightarrow> coordinate \<Rightarrow> (nat \<times> int) option" where
  "coor_key order c =
     (case path c of
        [] \<Rightarrow> None
      | i # _ \<Rightarrow> map_option (\<lambda>k. (k, offset c)) (index_of i order))"

text \<open>The first element with the least key, and an element with the greatest key.\<close>

fun earliest :: "('a \<Rightarrow> 'k::linorder) \<Rightarrow> 'a \<Rightarrow> 'a list \<Rightarrow> 'a" where
  "earliest key best [] = best"
| "earliest key best (a # as) = earliest key (if key a < key best then a else best) as"

fun latest :: "('a \<Rightarrow> 'k::linorder) \<Rightarrow> 'a \<Rightarrow> 'a list \<Rightarrow> 'a" where
  "latest key best [] = best"
| "latest key best (a # as) = latest key (if key best < key a then a else best) as"

text \<open>\<open>tx.set([id, 'end'], coordinate)\<close> on an annotation.\<close>

definition set_end :: "node_id \<Rightarrow> coordinate \<Rightarrow> tx \<Rightarrow> tx" where
  "set_end i c t = t\<lparr>annos := map (\<lambda>a. if anno_id a = i then a\<lparr>end_c := c\<rparr> else a) (annos t)\<rparr>"

text \<open>
  Modelled from the spec (section 4.3): \<open>fuseAnnotation(doc, annos)\<close> needs at least two
  annotations, all of one type. The survivor is the earliest-starting one, the first in
  input order among equal starts; its end becomes the latest end among them; the others
  are deleted. \<open>order\<close> is the container that orders the coordinates.
\<close>

definition survivor :: "node_id list \<Rightarrow> annotation list \<Rightarrow> annotation" where
  "survivor order as = earliest (\<lambda>a. the (coor_key order (start a))) (hd as) (tl as)"

definition latest_end :: "node_id list \<Rightarrow> annotation list \<Rightarrow> annotation" where
  "latest_end order as = latest (\<lambda>a. the (coor_key order (end_c a))) (hd as) (tl as)"

definition fuseAnnotation :: "node_id list \<Rightarrow> tx \<Rightarrow> annotation list \<Rightarrow> error + tx" where
  "fuseAnnotation order t as =
     (if length as < 2 then
        Inl (Error ''fuseAnnotation(): at least two annotations are necessary.'')
      else if list_ex (\<lambda>a. anno_type a \<noteq> anno_type (hd as)) as then
        Inl (Error ''fuseAnnotation(): all annotations must be of the same type.'')
      else if list_ex (\<lambda>a. coor_key order (start a) = None \<or> coor_key order (end_c a) = None) as then
        Inl (Error ''InvalidSelectionError'')
      else
        (let t1 = fold (\<lambda>a. delete_anno (anno_id a))
                       (filter (\<lambda>a. anno_id a \<noteq> anno_id (survivor order as)) as) t
         in Inr (set_end (anno_id (survivor order as)) (end_c (latest_end order as)) t1)))"

text \<open>The paragraph \<open>p1\<close> with two \<open>strong\<close> annotations, \<open>[0,2)\<close> and \<open>[4,6)\<close>, and a
  selection that touches both (the fixture of the fuse test).\<close>

definition example_fuse :: tx where
  "example_fuse =
     \<lparr>nodes = [(''p1'', \<lparr>ntype = ''paragraph'', kind = TextKind,
                         content = [97, 98, 99, 100, 101, 102, 103, 104]\<rparr>)],
      containers = [([''body'', ''nodes''], [''p1''])],
      annos = [\<lparr>anno_id = ''a1'', anno_type = ''strong'',
                start = \<lparr>path = [''p1'', ''content''], offset = 0\<rparr>,
                end_c = \<lparr>path = [''p1'', ''content''], offset = 2\<rparr>,
                isInlineNode = False, autoExpandRight = False\<rparr>,
               \<lparr>anno_id = ''a2'', anno_type = ''strong'',
                start = \<lparr>path = [''p1'', ''content''], offset = 4\<rparr>,
                end_c = \<lparr>path = [''p1'', ''content''], offset = 6\<rparr>,
                isInlineNode = False, autoExpandRight = False\<rparr>],
      selection = PropertySelection [''p1'', ''content''] 1 6 None\<rparr>"


definition fuse_a1 :: annotation where
  "fuse_a1 = \<lparr>anno_id = ''a1'', anno_type = ''strong'',
                start = \<lparr>path = [''p1'', ''content''], offset = 0\<rparr>,
                end_c = \<lparr>path = [''p1'', ''content''], offset = 2\<rparr>,
                isInlineNode = False, autoExpandRight = False\<rparr>"

definition fuse_a2 :: annotation where
  "fuse_a2 = \<lparr>anno_id = ''a2'', anno_type = ''strong'',
                start = \<lparr>path = [''p1'', ''content''], offset = 4\<rparr>,
                end_c = \<lparr>path = [''p1'', ''content''], offset = 6\<rparr>,
                isInlineNode = False, autoExpandRight = False\<rparr>"

section \<open>Document: nodes with properties, owned references and indices\<close>

text \<open>
  Modelled from the spec: \<open>Document\<close>, \<open>DocumentNode\<close>, the parent links and \<open>DocumentIndex\<close>
  are not among the sources; only their tests are. By section 3 a node has a type and the
  property values that its type declares; a schema says which properties are owned
  references (a single id, \<open>CHILD\<close>, or an array of ids, \<open>CHILDREN\<close>) and which of them are
  required.
\<close>

datatype pvalue = Null | Str string | Ids "node_id list"

record dnode =
  dtype :: string
  props :: "(string \<times> pvalue) list"

record schema =
  owned :: "(string \<times> string) list"
  required :: "(string \<times> string) list"

text \<open>
  The calls that an index receives, as the spies of the index test record them:
  \<open>create(node)\<close>, \<open>delete(node)\<close> and \<open>update(node, path, newValue, oldValue)\<close>.
\<close>

datatype call =
    Created "node_id \<times> dnode"
  | Deleted "node_id \<times> dnode"
  | Updated "node_id \<times> dnode" path pvalue pvalue

record index =
  select :: "node_id \<times> dnode \<Rightarrow> bool"
  calls :: "call list"

record document =
  dnodes :: "(node_id \<times> dnode) list"
  indices :: "(string \<times> index) list"

fun call_node :: "call \<Rightarrow> node_id \<times> dnode" where
  "call_node (Created n) = n"
| "call_node (Deleted n) = n"
| "call_node (Updated n p v w) = n"

text \<open>Section 4.6: an index is called for the nodes that it selects, once per mutation.\<close>

definition notify :: "call \<Rightarrow> index \<Rightarrow> index" where
  "notify c ix = (if select ix (call_node c) then ix\<lparr>calls := calls ix @ [c]\<rparr> else ix)"

definition notify_all :: "call \<Rightarrow> document \<Rightarrow> document" where
  "notify_all c d = d\<lparr>indices := map (\<lambda>(name, ix). (name, notify c ix)) (indices d)\<rparr>"


text \<open>A property value holds an id when it is that id or an array that contains it.\<close>

fun holds :: "pvalue \<Rightarrow> node_id \<Rightarrow> bool" where
  "holds Null b = False"
| "holds (Str s) b = (s = b)"
| "holds (Ids l) b = (b \<in> set l)"

definition owns :: "schema \<Rightarrow> dnode \<Rightarrow> node_id \<Rightarrow> bool" where
  "owns sch n b = list_ex (\<lambda>(p, v). (dtype n, p) \<in> set (owned sch) \<and> holds v b) (props n)"

text \<open>
  Section 4.1: \<open>create\<close> installs the node and notifies every index; \<open>delete\<close> fails with
  \<open>NotFoundError\<close> when the node is absent or still held by a required owned reference of
  another node, else removes the node and notifies; \<open>set\<close> and \<open>update\<close> change one
  property and notify with the node, the path, the new and the old value. \<open>update\<close> on an
  array of references takes the typed operations \<open>insert(pos, value)\<close> and \<open>delete(pos)\<close>.
\<close>

definition doc_create :: "node_id \<Rightarrow> dnode \<Rightarrow> document \<Rightarrow> document" where
  "doc_create i n d = notify_all (Created (i, n)) (d\<lparr>dnodes := AList.update i n (dnodes d)\<rparr>)"



definition get_prop :: "dnode \<Rightarrow> string \<Rightarrow> pvalue" where
  "get_prop n p = (case map_of (props n) p of None \<Rightarrow> Null | Some v \<Rightarrow> v)"

definition put_prop :: "string \<Rightarrow> pvalue \<Rightarrow> dnode \<Rightarrow> dnode" where
  "put_prop p v n = n\<lparr>props := AList.update p v (props n)\<rparr>"

definition doc_set :: "node_id \<Rightarrow> string \<Rightarrow> pvalue \<Rightarrow> document \<Rightarrow> error + document" where
  "doc_set i p v d =
     (case map_of (dnodes d) i of
        None \<Rightarrow> Inl (NotFoundError i)
      | Some n \<Rightarrow>
          Inr (notify_all (Updated (i, put_prop p v n) [i, p] v (get_prop n p))
                 (d\<lparr>dnodes := AList.update i (put_prop p v n) (dnodes d)\<rparr>)))"

datatype array_op = ArrayInsert nat node_id | ArrayDelete nat

fun apply_array_op :: "array_op \<Rightarrow> node_id list \<Rightarrow> node_id list" where
  "apply_array_op (ArrayInsert pos v) l = take pos l @ [v] @ drop pos l"
| "apply_array_op (ArrayDelete pos) l = take pos l @ drop (Suc pos) l"

definition doc_update :: "node_id \<Rightarrow> string \<Rightarrow> array_op \<Rightarrow> document \<Rightarrow> error + document" where
  "doc_update i p opn d =
     (case map_of (dnodes d) i of
        None \<Rightarrow> Inl (NotFoundError i)
      | Some n \<Rightarrow>
          (case get_prop n p of
             Ids l \<Rightarrow> doc_set i p (Ids (apply_array_op opn l)) d
           | Null \<Rightarrow> doc_set i p (Ids (apply_array_op opn [])) d
           | Str s \<Rightarrow> Inl (Error ''update: not an array property'')))"

text \<open>
  Section 3: the parent of a node is derived, not stored. It is the node that owns a
  property (a single reference or a slot of an array of references) whose current value
  is the id of the node; the slot gives the property name and, in an array, the position.
\<close>

definition slot_of :: "schema \<Rightarrow> dnode \<Rightarrow> node_id \<Rightarrow> (string \<times> nat option) option" where
  "slot_of sch n b =
     map_option (\<lambda>(p, v). (p, case v of Ids l \<Rightarrow> index_of b l | _ \<Rightarrow> None))
       (find (\<lambda>(p, v). (dtype n, p) \<in> set (owned sch) \<and> holds v b) (props n))"

definition owner_slot :: "schema \<Rightarrow> document \<Rightarrow> node_id \<Rightarrow> (node_id \<times> string \<times> nat option) option" where
  "owner_slot sch d b =
     (case find (\<lambda>(i, n). owns sch n b) (dnodes d) of
        None \<Rightarrow> None
      | Some (a, n) \<Rightarrow> map_option (\<lambda>(p, pos). (a, p, pos)) (slot_of sch n b))"

definition getParent :: "schema \<Rightarrow> document \<Rightarrow> node_id \<Rightarrow> node_id option" where
  "getParent sch d b = map_option fst (find (\<lambda>(i, n). owns sch n b) (dnodes d))"

text \<open>
  \<open>XPathNode\<close> of the sources: id, type, the previous node of the path, property and
  position. \<open>toJSON\<close> leaves out a property that is empty and a position that is not a
  number; \<open>toArray\<close> lists the entries from the root down to the node.
\<close>

datatype xpath_node = XPathNode node_id string "xpath_node option" "string option" "nat option"

record xpath_entry =
  xid :: node_id
  xtype :: string
  xproperty :: "string option"
  xpos :: "nat option"

fun toJSON :: "xpath_node \<Rightarrow> xpath_entry" where
  "toJSON (XPathNode i ty prev prop pos) =
     \<lparr>xid = i, xtype = ty,
      xproperty = (case prop of None \<Rightarrow> None | Some p \<Rightarrow> if p = [] then None else Some p),
      xpos = pos\<rparr>"

fun toArray :: "xpath_node \<Rightarrow> xpath_entry list" where
  "toArray (XPathNode i ty None prop pos) = [toJSON (XPathNode i ty None prop pos)]"
| "toArray (XPathNode i ty (Some prev) prop pos) =
     toArray prev @ [toJSON (XPathNode i ty (Some prev) prop pos)]"

text \<open>
  Section 3: the xpath of a node is the chain of its owners down to the node, each entry
  with the property and position of the slot that holds it. The chain is followed for at
  most \<open>fuel\<close> nodes; \<open>None\<close> means that the node is missing or the fuel is used up.
\<close>

fun getXpath :: "nat \<Rightarrow> schema \<Rightarrow> document \<Rightarrow> node_id \<Rightarrow> xpath_node option" where
  "getXpath 0 sch d b = None"
| "getXpath (Suc fuel) sch d b =
     (case map_of (dnodes d) b of
        None \<Rightarrow> None
      | Some n \<Rightarrow>
          (case owner_slot sch d b of
             None \<Rightarrow> Some (XPathNode b (dtype n) None None None)
           | Some (a, p, pos) \<Rightarrow>
               (case getXpath fuel sch d a of
                  None \<Rightarrow> None
                | Some xa \<Rightarrow> Some (XPathNode b (dtype n) (Some xa) (Some p) pos))))"

text \<open>The schema and the nodes of the parent tests: a \<open>parent\<close> owns its \<open>foo\<close>, a single
  child or an array of children; and the document of the index test, a body with four
  paragraphs.\<close>

definition parent_schema :: schema where
  "parent_schema = \<lparr>owned = [(''parent'', ''foo'')], required = []\<rparr>"

definition empty_document :: document where
  "empty_document = \<lparr>dnodes = [], indices = []\<rparr>"

definition child_b :: dnode where
  "child_b = \<lparr>dtype = ''child'', props = []\<rparr>"

definition parent_single :: dnode where
  "parent_single = \<lparr>dtype = ''parent'', props = [(''foo'', Str ''b'')]\<rparr>"

definition parent_array :: dnode where
  "parent_array = \<lparr>dtype = ''parent'', props = [(''foo'', Ids [''b'', ''c''])]\<rparr>"


definition array_document :: document where
  "array_document =
     doc_create ''a'' parent_array (doc_create ''c'' child_b (doc_create ''b'' child_b empty_document))"

definition single_document :: document where
  "single_document = doc_create ''a'' parent_single (doc_create ''b'' child_b empty_document)"









section \<open>Verified properties\<close>

subsection \<open>Text insertion repositions the annotations\<close>

lemma find_map_upd:
  assumes "\<And>a. anno_id (g a) = anno_id a"
  shows "find (\<lambda>a. anno_id a = i) (map (\<lambda>a. if anno_id a = j then g a else a) l) =
         (if i = j then map_option g (find (\<lambda>a. anno_id a = i) l) else find (\<lambda>a. anno_id a = i) l)"
  using assms by (induction l) auto

lemma find_filter_neq:
  "find (\<lambda>a. anno_id a = i) (filter (\<lambda>a. anno_id a \<noteq> j) l) =
         (if i = j then None else find (\<lambda>a. anno_id a = i) l)"
  by (induction l) auto



lemma get_anno_delete_anno:
  "get_anno (delete_anno j t) i = (if i = j then None else get_anno t i)"
  unfolding get_anno_def delete_anno_def
  by (simp add: find_filter_neq)







lemma annos_update_text: "update_text t p opn = Inr t1 \<Longrightarrow> annos t1 = annos t"
  by (auto simp: update_text_def split: option.splits)

lemma map_of_set_content:
  "map_of (set_content i c ns) k =
     (if k = i then map_option (\<lambda>n. n\<lparr>content := c\<rparr>) (map_of ns k) else map_of ns k)"
  by (induction ns) (auto simp: set_content_def)

lemma get_text_update_text:
  assumes "get_text t p = Some c"
  shows "\<exists>t1. update_text t p opn = Inr t1 \<and> get_text t1 p = Some (apply_text_op opn c)
              \<and> annos t1 = annos t"
proof -
  from assms obtain i where p: "p = [i, ''content'']"
    by (auto simp: get_text_def split: list.splits option.splits if_splits)
  from assms p obtain n where n: "map_of (nodes t) i = Some n" "isText n" "content n = c"
    by (auto simp: get_text_def split: option.splits if_splits)
  show ?thesis
    using assms p n
    by (simp add: update_text_def get_text_def map_of_set_content isText_def)
qed










text \<open>
  The seven relations of the theorem below do not overlap, and for \<open>a \<le> b\<close> and \<open>s \<le> e\<close>
  they leave one gap, the last entry of the list: an annotation whose type does not expand
  to the right and that ends where a typed-over range starts. So the last branch of the
  source, which only logs a warning, is never taken.
\<close>

lemma insertText_rows_partition:
  fixes a b s e :: int
  assumes "a \<le> b" "s \<le> e"
  shows "length (filter (\<lambda>r. r)
           [b < s,
            e \<le> a,
            s \<le> a \<and> (b < e \<or> (inl \<and> a < e \<and> b = e)),
            s \<le> a \<and> a < e \<and> e \<le> b \<and> \<not> (inl \<and> b = e),
            a < s \<and> s \<le> b \<and> b < e \<and> (b = s \<longrightarrow> aer),
            a < s \<and> b = s \<and> s = e \<and> \<not> aer,
            a < s \<and> e \<le> b \<and> \<not> (b = s \<and> \<not> aer),
            a < s \<and> b = s \<and> s < e \<and> \<not> aer]) = 1"
proof -
  consider (before) "b < s" | (after) "s \<le> b" "e \<le> a"
    | (inside) "s \<le> a" "b < e" | (covered) "s \<le> a" "a < e" "b = e"
    | (head) "s \<le> a" "a < e" "e < b" | (tail) "a < s" "s < b" "b < e"
    | (touch) "a < s" "b = s" "s < e"
    | (around) "a < s" "e \<le> b"
    using assms by linarith
  then show ?thesis
  proof cases
    case before
    then show ?thesis using assms by simp
  next
    case after
    then show ?thesis using assms by simp
  next
    case inside
    then show ?thesis using assms by simp
  next
    case covered
    then show ?thesis using assms by (cases inl) simp_all
  next
    case head
    then show ?thesis using assms by simp
  next
    case tail
    then show ?thesis using assms by simp
  next
    case touch
    then show ?thesis using assms by (cases aer) simp_all
  next
    case around
    then show ?thesis using assms by (cases "b = s"; cases aer) simp_all
  qed
qed




subsection \<open>Deleting a character\<close>

lemma lead_not_trail: "is_lead x \<Longrightarrow> \<not> is_trail x"
  by (simp add: is_lead_def is_trail_def priv_isLowSurrogate_def priv_isHighSurrogate_def)

lemma wf_cons_bmp: "\<not> is_lead x \<Longrightarrow> \<not> is_trail x \<Longrightarrow> well_formed (x # l) = well_formed l"
  by (cases l) auto

lemma wf_append: "well_formed a \<Longrightarrow> well_formed (a @ b) = well_formed b"
proof (induction a rule: well_formed.induct)
  case 1
  then show ?case by simp
next
  case (2 x)
  then show ?case by (simp add: wf_cons_bmp)
next
  case (3 x y r)
  show ?case
  proof (cases "is_lead x")
    case True
    with 3 show ?thesis by simp
  next
    case False
    with 3 have "well_formed ((y # r) @ b) = well_formed b" by simp
    moreover have "well_formed ((x # y # r) @ b) = well_formed ((y # r) @ b)"
      using False 3 by simp
    ultimately show ?thesis by simp
  qed
qed


lemma wf_at_lead:
  "well_formed c \<Longrightarrow> k < length c \<Longrightarrow> is_lead (c ! k) \<Longrightarrow>
     Suc k < length c \<and> is_trail (c ! Suc k) \<and> well_formed (take k c) \<and>
     well_formed (drop (Suc (Suc k)) c)"
proof (induction c arbitrary: k rule: well_formed.induct)
  case 1
  then show ?case by simp
next
  case (2 x)
  then show ?case by simp
next
  case (3 x y r)
  show ?case
  proof (cases "is_lead x")
    case True
    with "3.prems"(1) have ty: "is_trail y" and wr: "well_formed r" by auto
    consider "k = 0" | "k = 1" | i where "k = Suc (Suc i)"
      by (metis One_nat_def not0_implies_Suc)
    then show ?thesis
    proof cases
      case 1
      then show ?thesis using ty wr by simp
    next
      case 2
      then have "is_lead y" using "3.prems"(3) by simp
      then show ?thesis using ty lead_not_trail by blast
    next
      case (3 i)
      then have "i < length r" "is_lead (r ! i)" using "3.prems" by auto
      from "3.IH"(1)[OF True wr this]
      show ?thesis using 3 True ty by simp
    qed
  next
    case False
    with "3.prems"(1) have ntx: "\<not> is_trail x" and wr: "well_formed (y # r)" by auto
    show ?thesis
    proof (cases k)
      case 0
      then show ?thesis using False "3.prems"(3) by simp
    next
      case (Suc j)
      then have "j < length (y # r)" "is_lead ((y # r) ! j)" using "3.prems" by auto
      from "3.IH"(2)[OF False wr this]
      have "Suc j < length (y # r)" "is_trail ((y # r) ! Suc j)" "well_formed (take j (y # r))"
           "well_formed (drop (Suc (Suc j)) (y # r))" by auto
      moreover have "well_formed (take k (x # y # r)) = well_formed (take j (y # r))"
        unfolding Suc take_Suc_Cons using False ntx by (rule wf_cons_bmp)
      ultimately show ?thesis unfolding Suc by simp
    qed
  qed
qed


lemma wf_at_trail:
  "well_formed c \<Longrightarrow> k < length c \<Longrightarrow> is_trail (c ! k) \<Longrightarrow>
     0 < k \<and> well_formed (take (k - 1) c) \<and> well_formed (drop (Suc k) c)"
proof (induction c arbitrary: k rule: well_formed.induct)
  case 1
  then show ?case by simp
next
  case (2 x)
  then show ?case by simp
next
  case (3 x y r)
  show ?case
  proof (cases "is_lead x")
    case True
    with "3.prems"(1) have ty: "is_trail y" and wr: "well_formed r" by auto
    consider "k = 0" | "k = 1" | i where "k = Suc (Suc i)"
      by (metis One_nat_def not0_implies_Suc)
    then show ?thesis
    proof cases
      case 1
      then have "is_trail x" using "3.prems"(3) by simp
      then show ?thesis using True lead_not_trail by blast
    next
      case 2
      then show ?thesis using wr by simp
    next
      case (3 i)
      then have "i < length r" "is_trail (r ! i)" using "3.prems" by auto
      from "3.IH"(1)[OF True wr this]
      have pos: "0 < i" and a: "well_formed (take (i - 1) r)" and b: "well_formed (drop (Suc i) r)"
        by auto
      from pos obtain i' where i': "i = Suc i'" by (cases i) auto
      have "well_formed (take (k - 1) (x # y # r)) = well_formed (take i' r)"
        unfolding 3 i' using True ty by simp
      then show ?thesis using a b 3 i' by simp
    qed
  next
    case False
    with "3.prems"(1) have ntx: "\<not> is_trail x" and wr: "well_formed (y # r)" by auto
    show ?thesis
    proof (cases k)
      case 0
      then show ?thesis using ntx "3.prems"(3) by simp
    next
      case (Suc j)
      then have "j < length (y # r)" "is_trail ((y # r) ! j)" using "3.prems" by auto
      from "3.IH"(2)[OF False wr this]
      have pos: "0 < j" and a: "well_formed (take (j - 1) (y # r))"
        and b: "well_formed (drop (Suc j) (y # r))" by auto
      from pos obtain j' where j': "j = Suc j'" by (cases j) auto
      have "well_formed (take (k - 1) (x # y # r)) = well_formed (take j' (y # r))"
        unfolding Suc j' diff_Suc_1 take_Suc_Cons using False ntx by (rule wf_cons_bmp)
      then show ?thesis using a b unfolding Suc j' by simp
    qed
  qed
qed

lemma wf_at_bmp:
  "well_formed c \<Longrightarrow> k < length c \<Longrightarrow> \<not> is_lead (c ! k) \<Longrightarrow> \<not> is_trail (c ! k) \<Longrightarrow>
     well_formed (take k c) \<and> well_formed (drop (Suc k) c)"
proof (induction c arbitrary: k rule: well_formed.induct)
  case 1
  then show ?case by simp
next
  case (2 x)
  then show ?case by simp
next
  case (3 x y r)
  show ?case
  proof (cases "is_lead x")
    case True
    with "3.prems"(1) have ty: "is_trail y" and wr: "well_formed r" by auto
    consider "k = 0" | "k = 1" | i where "k = Suc (Suc i)"
      by (metis One_nat_def not0_implies_Suc)
    then show ?thesis
    proof cases
      case 1
      then show ?thesis using True "3.prems"(3) by simp
    next
      case 2
      then show ?thesis using ty "3.prems"(4) by simp
    next
      case (3 i)
      then have "i < length r" "\<not> is_lead (r ! i)" "\<not> is_trail (r ! i)" using "3.prems" by auto
      from "3.IH"(1)[OF True wr this]
      show ?thesis using 3 True ty by simp
    qed
  next
    case False
    with "3.prems"(1) have ntx: "\<not> is_trail x" and wr: "well_formed (y # r)" by auto
    show ?thesis
    proof (cases k)
      case 0
      then show ?thesis using wr by simp
    next
      case (Suc j)
      then have "j < length (y # r)" "\<not> is_lead ((y # r) ! j)" "\<not> is_trail ((y # r) ! j)"
        using "3.prems" by auto
      from "3.IH"(2)[OF False wr this]
      have a: "well_formed (take j (y # r))" and b: "well_formed (drop (Suc j) (y # r))" by auto
      have "well_formed (take k (x # y # r)) = well_formed (take j (y # r))"
        unfolding Suc take_Suc_Cons using False ntx by (rule wf_cons_bmp)
      then show ?thesis using a b unfolding Suc by simp
    qed
  qed
qed

lemma charCodeAt_in:
  "0 \<le> k \<Longrightarrow> k < int (length c) \<Longrightarrow> charCodeAt c k = Some (unat (c ! nat k))"
  by (simp add: charCodeAt_def)

lemma delete_range_well_formed:
  assumes wf: "well_formed c" and k0: "0 \<le> k" and k1: "k < int (length c)"
    and k: "k = (if direction = ''left'' then off - 1 else off)"
  shows "delete_range c off direction =
           (if is_lead (c ! nat k) then (k, k + 2)
            else if is_trail (c ! nat k) then (k - 1, k + 1) else (k, k + 1))"
proof -
  have cc: "charCodeAt c k = Some (unat (c ! nat k))" using k0 k1 by (rule charCodeAt_in)
  have nk: "nat k < length c" using k0 k1 by simp
  show ?thesis
  proof (cases "is_lead (c ! nat k)")
    case True
    from wf_at_lead[OF wf nk True] have n: "Suc (nat k) < length c" and tr: "is_trail (c ! Suc (nat k))"
      by auto
    have "nat (k + 1) = Suc (nat k)" using k0 by simp
    moreover have "charCodeAt c (k + 1) = Some (unat (c ! nat (k + 1)))"
      using k0 n by (intro charCodeAt_in) auto
    ultimately have "priv_isHighSurrogate (charCodeAt c (k + 1))"
      using tr by (simp add: is_trail_def)
    moreover have "priv_isLowSurrogate (charCodeAt c k)" using True cc by (simp add: is_lead_def)
    ultimately show ?thesis using True k by (simp add: delete_range_def Let_def)
  next
    case False
    then have "\<not> priv_isLowSurrogate (charCodeAt c k)" using cc by (simp add: is_lead_def)
    moreover have "priv_isHighSurrogate (charCodeAt c k) = is_trail (c ! nat k)"
      using cc by (simp add: is_trail_def)
    ultimately show ?thesis using False k by (simp add: delete_range_def Let_def)
  qed
qed

lemma delete_range_result_well_formed:
  assumes wf: "well_formed c" and k0: "0 \<le> k" and k1: "k < int (length c)"
    and se: "(s, e) = (if is_lead (c ! nat k) then (k, k + 2)
            else if is_trail (c ! nat k) then (k - 1, k + 1) else (k, k + 1))"
  shows "well_formed (take (nat s) c @ drop (nat e) c)"
proof -
  have nk: "nat k < length c" using k0 k1 by simp
  consider (lead) "is_lead (c ! nat k)" | (trail) "\<not> is_lead (c ! nat k)" "is_trail (c ! nat k)"
    | (bmp) "\<not> is_lead (c ! nat k)" "\<not> is_trail (c ! nat k)" by blast
  then show ?thesis
  proof cases
    case lead
    from wf_at_lead[OF wf nk lead] have a: "well_formed (take (nat k) c)"
      and b: "well_formed (drop (Suc (Suc (nat k))) c)" by auto
    have "nat (k + 2) = Suc (Suc (nat k))" using k0 by simp
    then show ?thesis using se lead a b by (simp add: wf_append)
  next
    case trail
    from wf_at_trail[OF wf nk trail(2)] have a: "well_formed (take (nat k - 1) c)"
      and b: "well_formed (drop (Suc (nat k)) c)" by auto
    have "nat (k + 1) = Suc (nat k)" "nat (k - 1) = nat k - 1" using k0 by auto
    then show ?thesis using se trail a b by (simp add: wf_append)
  next
    case bmp
    from wf_at_bmp[OF wf nk bmp] have a: "well_formed (take (nat k) c)"
      and b: "well_formed (drop (Suc (nat k)) c)" by auto
    have "nat (k + 1) = Suc (nat k)" using k0 by simp
    then show ?thesis using se bmp a b by (simp add: wf_append)
  qed
qed

lemma get_text_cong:
  assumes "nodes t = nodes t'"
  shows "get_text t p = get_text t' p"
  unfolding get_text_def assms ..

lemma get_text_annos_update: "get_text (t\<lparr>annos := x\<rparr>) p = get_text t p"
  by (rule get_text_cong) simp

lemma get_text_setSelection: "get_text (setSelection s t) p = get_text t p"
  by (rule get_text_cong) (simp add: setSelection_def)

lemma nodes_insertText_anno: "nodes (insertText_anno s e tov L x t) = nodes t"
  by (simp add: insertText_anno_def Let_def update_start_shift_def update_end_shift_def
      delete_anno_def)

lemma nodes_fold_insertText_anno: "nodes (fold (insertText_anno s e tov L) xs t) = nodes t"
  by (induction xs arbitrary: t) (simp_all add: nodes_insertText_anno)

lemma deleteTextRange_text:
  assumes "get_text t p = Some c"
  shows "\<exists>t1. deleteTextRange t p s e = Inr t1 \<and>
           get_text t1 p = Some (take (nat s) c @ drop (nat e) c)"
proof -
  from get_text_update_text[OF assms, of "TextDelete s e"]
  obtain t0 where u: "update_text t p (TextDelete s e) = Inr t0"
    and g: "get_text t0 p = Some (take (nat s) c @ drop (nat e) c)" by auto
  let ?t1 = "fold (insertText_anno s e (s \<noteq> e) 0) (getAnnotations t0 p) t0"
  have "get_text ?t1 p = get_text t0 p"
    by (rule get_text_cong) (rule nodes_fold_insertText_anno)
  moreover have "deleteTextRange t p s e = Inr ?t1"
    using u by (simp add: deleteTextRange_def)
  ultimately show ?thesis using g by simp
qed

text \<open>
  Claim C7. \<open>delete\<close> with a collapsed selection at a text boundary and no container path
  (offset 0 going left, or the offset equal to the text length going right) is a no-op: it
  returns without an error and the document, selection included, is unchanged, whatever
  the other branches of \<open>delete\<close> do.
\<close>

theorem delete_at_boundary_is_noop:
  assumes sel: "selection t = PropertySelection p off off None"
    and has: "get_text t p = Some c"
    and bnd: "(off = 0 \<and> direction = ''left'') \<or> (off = int (length c) \<and> direction = ''right'')"
  shows "delete deleteNodeSelection mergeBranch deleteContainerSelection t direction = Inr t"
  using assms by (auto simp: delete_def delete_collapsed_def)

theorem delete_at_boundary_is_noop_witness:
  "selection (setSelection (PropertySelection [''p1'', ''content''] 4 4 None) example_emoji) =
     PropertySelection [''p1'', ''content''] 4 4 None \<and>
   get_text (setSelection (PropertySelection [''p1'', ''content''] 4 4 None) example_emoji)
     [''p1'', ''content''] = Some [97, 55357, 56832, 98] \<and>
   (4 = int (length [97, 55357, 56832, 98 :: 16 word])) \<and>
   delete failing failing (\<lambda>t. failing t [])
     (setSelection (PropertySelection [''p1'', ''content''] 4 4 None) example_emoji) ''right'' =
     Inr (setSelection (PropertySelection [''p1'', ''content''] 4 4 None) example_emoji)"
proof -
  let ?t = "setSelection (PropertySelection [''p1'', ''content''] 4 4 None) example_emoji"
  have h1: "selection ?t = PropertySelection [''p1'', ''content''] 4 4 None"
    by (simp add: setSelection_def)
  have h2: "get_text ?t [''p1'', ''content''] = Some [97, 55357, 56832, 98]"
    by (simp add: setSelection_def example_emoji_def get_text_def isText_def)
  have h3: "(4 = 0 \<and> ''right'' = ''left'') \<or>
            (4 = int (length [97, 55357, 56832, 98 :: 16 word]) \<and> ''right'' = ''right'')"
    by simp
  show ?thesis
    using delete_at_boundary_is_noop[OF h1 h2 h3, of failing failing "\<lambda>t. failing t []"] h1 h2
    by simp
qed

text \<open>
  Claim C10. \<open>delete\<close> with a collapsed selection inside a well-formed text, be it a
  property selection or a collapsed container selection, returns, and with \<open>k\<close> the
  tentative start offset (one before the cursor going left, the cursor going right): if
  the code unit at \<open>k\<close> is a lead surrogate (a trail surrogate follows it) the removed
  range is \<open>[k, k + 2)\<close>; if it is a trail surrogate the range is \<open>[k - 1, k + 1)\<close>;
  otherwise it is \<open>[k, k + 1)\<close>. The remaining text is well formed again: no surrogate
  pair has been cut.
\<close>

theorem delete_keeps_surrogate_pairs:
  assumes sel: "selection t = PropertySelection p off off cp \<or>
                (selection t = ContainerSelection cq st en \<and> isCollapsed st en \<and>
                 path st = p \<and> offset st = off)"
    and has: "get_text t p = Some c"
    and wf: "well_formed c"
    and pos: "(direction = ''left'' \<and> 0 < off \<and> off \<le> int (length c)) \<or>
              (direction = ''right'' \<and> 0 \<le> off \<and> off < int (length c))"
    and k: "k = (if direction = ''left'' then off - 1 else off)"
    and se: "(s, e) = (if is_lead (c ! nat k) then (k, k + 2)
                       else if is_trail (c ! nat k) then (k - 1, k + 1) else (k, k + 1))"
  shows "\<exists>t'. delete deleteNodeSelection mergeBranch deleteContainerSelection t direction = Inr t' \<and>
           delete_range c off direction = (s, e) \<and>
           get_text t' p = Some (take (nat s) c @ drop (nat e) c) \<and>
           well_formed (take (nat s) c @ drop (nat e) c)"
proof -
  have k0: "0 \<le> k" and k1: "k < int (length c)" using pos k by auto
  have dr: "delete_range c off direction = (s, e)"
    using delete_range_well_formed[OF wf k0 k1 k] se by simp
  have w: "well_formed (take (nat s) c @ drop (nat e) c)"
    using wf k0 k1 se by (rule delete_range_result_well_formed)
  obtain t1 where t1: "deleteTextRange t p s e = Inr t1"
    and g1: "get_text t1 p = Some (take (nat s) c @ drop (nat e) c)"
    using deleteTextRange_text[OF has] by blast
  have nb: "\<not> (off = 0 \<and> direction = ''left'')" "\<not> (off = int (length c) \<and> direction = ''right'')"
    using pos by auto
  have col: "\<And>q. delete_collapsed mergeBranch t p off q direction =
                  Inr (setSelection (PropertySelection p s s q) t1)"
    using has nb dr t1 by (auto simp: delete_collapsed_def)
  from sel have "\<exists>q. delete deleteNodeSelection mergeBranch deleteContainerSelection t direction =
          Inr (setSelection (PropertySelection p s s q) t1)"
  proof
    assume "selection t = PropertySelection p off off cp"
    then have "delete deleteNodeSelection mergeBranch deleteContainerSelection t direction =
          Inr (setSelection (PropertySelection p s s cp) t1)"
      using col[of cp] by (simp add: delete_def)
    then show ?thesis by blast
  next
    assume "selection t = ContainerSelection cq st en \<and> isCollapsed st en \<and>
            path st = p \<and> offset st = off"
    then have "delete deleteNodeSelection mergeBranch deleteContainerSelection t direction =
          Inr (setSelection (PropertySelection p s s (Some cq)) t1)"
      using col[of "Some cq"] by (simp add: delete_def)
    then show ?thesis by blast
  qed
  then show ?thesis using dr g1 w by (auto simp: get_text_setSelection)
qed

theorem delete_keeps_surrogate_pairs_witness:
  "selection example_emoji = PropertySelection [''p1'', ''content''] 3 3 None \<and>
   get_text example_emoji [''p1'', ''content''] = Some [97, 55357, 56832, 98] \<and>
   selection example_emoji_container =
     ContainerSelection [''body'', ''nodes''] \<lparr>path = [''p1'', ''content''], offset = 1\<rparr>
       \<lparr>path = [''p1'', ''content''], offset = 1\<rparr> \<and>
   isCollapsed \<lparr>path = [''p1'', ''content''], offset = 1\<rparr>
     \<lparr>path = [''p1'', ''content''], offset = 1\<rparr> \<and>
   get_text example_emoji_container [''p1'', ''content''] = Some [97, 55357, 56832, 98] \<and>
   well_formed [97, 55357, 56832, 98] \<and>
   is_trail ([97, 55357, 56832, 98] ! nat 2) \<and>
   is_lead ([97, 55357, 56832, 98] ! nat 1) \<and>
   (\<exists>t'. delete failing failing (\<lambda>t. failing t []) example_emoji ''left'' = Inr t' \<and>
         delete_range [97, 55357, 56832, 98] 3 ''left'' = (1, 3) \<and>
         get_text t' [''p1'', ''content''] = Some [97, 98] \<and>
         well_formed [97, 98]) \<and>
   (\<exists>t'. delete failing failing (\<lambda>t. failing t []) example_emoji_container ''right'' = Inr t' \<and>
         delete_range [97, 55357, 56832, 98] 1 ''right'' = (1, 3) \<and>
         get_text t' [''p1'', ''content''] = Some [97, 98])"
proof -
  let ?c = "[97, 55357, 56832, 98] :: jstring"
  let ?x = "\<lparr>path = [''p1'', ''content''], offset = 1\<rparr>"
  have h1: "selection example_emoji = PropertySelection [''p1'', ''content''] 3 3 None \<or>
            (selection example_emoji = ContainerSelection [] ?x ?x \<and> isCollapsed ?x ?x \<and>
             path ?x = [''p1'', ''content''] \<and> offset ?x = 3)"
    by (simp add: example_emoji_def)
  have s1: "selection example_emoji = PropertySelection [''p1'', ''content''] 3 3 None"
    by (simp add: example_emoji_def)
  have h2: "get_text example_emoji [''p1'', ''content''] = Some ?c"
    by (simp add: example_emoji_def get_text_def isText_def)
  have h3: "well_formed ?c"
    by (simp add: is_lead_def is_trail_def priv_isLowSurrogate_def priv_isHighSurrogate_def)
  have h4: "(''left'' = ''left'' \<and> (0::int) < 3 \<and> 3 \<le> int (length ?c)) \<or>
            (''left'' = ''right'' \<and> (0::int) \<le> 3 \<and> 3 < int (length ?c))" by simp
  have h5: "(2::int) = (if ''left'' = ''left'' then 3 - 1 else 3)" by simp
  have tr: "is_trail (?c ! nat 2)" "\<not> is_lead (?c ! nat 2)"
    by (simp_all add: is_lead_def is_trail_def priv_isLowSurrogate_def priv_isHighSurrogate_def)
  have h6: "((1::int), (3::int)) = (if is_lead (?c ! nat 2) then (2, 2 + 2)
                       else if is_trail (?c ! nat 2) then (2 - 1, 2 + 1) else (2, 2 + 1))"
    using tr by simp
  have tk: "take (nat 1) ?c @ drop (nat 3) ?c = [97, 98]" by simp
  have c1: "selection example_emoji_container = PropertySelection [''p1'', ''content''] 1 1 None \<or>
            (selection example_emoji_container = ContainerSelection [''body'', ''nodes''] ?x ?x \<and>
             isCollapsed ?x ?x \<and> path ?x = [''p1'', ''content''] \<and> offset ?x = 1)"
    by (simp add: example_emoji_container_def isCollapsed_def)
  have cs: "selection example_emoji_container = ContainerSelection [''body'', ''nodes''] ?x ?x"
    "isCollapsed ?x ?x"
    by (simp_all add: example_emoji_container_def isCollapsed_def)
  have c2: "get_text example_emoji_container [''p1'', ''content''] = Some ?c"
    by (simp add: example_emoji_container_def get_text_def isText_def)
  have c4: "(''right'' = ''left'' \<and> (0::int) < 1 \<and> 1 \<le> int (length ?c)) \<or>
            (''right'' = ''right'' \<and> (0::int) \<le> 1 \<and> 1 < int (length ?c))" by simp
  have c5: "(1::int) = (if ''right'' = ''left'' then 1 - 1 else 1)" by simp
  have ld: "is_lead (?c ! nat 1)"
    by (simp add: is_lead_def priv_isLowSurrogate_def)
  have c6: "((1::int), (3::int)) = (if is_lead (?c ! nat 1) then (1, 1 + 2)
                       else if is_trail (?c ! nat 1) then (1 - 1, 1 + 1) else (1, 1 + 1))"
    using ld by simp
  have r1: "\<exists>t'. delete failing failing (\<lambda>t. failing t []) example_emoji ''left'' = Inr t' \<and>
         delete_range ?c 3 ''left'' = (1, 3) \<and>
         get_text t' [''p1'', ''content''] = Some [97, 98] \<and>
         well_formed [97, 98]"
    using delete_keeps_surrogate_pairs[OF h1 h2 h3 h4 h5 h6, of failing failing "\<lambda>t. failing t []"] tk
    by simp
  have r2: "\<exists>t'. delete failing failing (\<lambda>t. failing t []) example_emoji_container ''right'' = Inr t' \<and>
         delete_range ?c 1 ''right'' = (1, 3) \<and>
         get_text t' [''p1'', ''content''] = Some [97, 98]"
    using delete_keeps_surrogate_pairs[OF c1 c2 h3 c4 c5 c6, of failing failing "\<lambda>t. failing t []"] tk
    by auto
  show ?thesis using s1 h2 cs c2 h3 tr(1) ld r1 r2 by simp
qed

subsection \<open>History of the session\<close>

lemma commit_history:
  "priv_commitChange (Some c) now s =
     Inr (s\<lparr>applied := applied s @ [stamped (c, now)],
            notified := notified s @ [stamped (c, now)],
            history := history s @ (if ops c \<noteq> [] then [stamped (c, now)] else []),
            emitted := emitted s @ [stamped (c, now)]\<rparr>)"
  by (simp add: priv_commitChange_def priv_applyChange_def notifyChangeListeners_def
        emit_change_def priv_onDocumentChange_def stamped_def)

lemma commit_all_history:
  "\<exists>s'. commit_all cs s = Inr s' \<and>
        history s' = history s @ filter (\<lambda>c. ops c \<noteq> []) (map stamped cs) \<and>
        notified s' = notified s @ map stamped cs \<and>
        emitted s' = emitted s @ map stamped cs"
proof (induction cs arbitrary: s)
  case Nil
  then show ?case by simp
next
  case (Cons cn cs)
  obtain c now where cn: "cn = (c, now)" by (cases cn)
  let ?s1 = "s\<lparr>applied := applied s @ [stamped (c, now)],
            notified := notified s @ [stamped (c, now)],
            history := history s @ (if ops c \<noteq> [] then [stamped (c, now)] else []),
            emitted := emitted s @ [stamped (c, now)]\<rparr>"
  from Cons.IH[of ?s1] obtain s' where s': "commit_all cs ?s1 = Inr s'"
    "history s' = history ?s1 @ filter (\<lambda>c. ops c \<noteq> []) (map stamped cs)"
    "notified s' = notified ?s1 @ map stamped cs"
    "emitted s' = emitted ?s1 @ map stamped cs" by blast
  have "ops (stamped (c, now)) = ops c" by (simp add: stamped_def)
  then show ?case using s' cn by (simp add: commit_history)
qed

text \<open>
  Claim C8, as amended. Every committed \<open>DocumentChange\<close> that has at least one operation is
  appended to the history of the session, in commit order; a committed change without
  operations is delivered but not recorded. No operation of the session truncates,
  reorders or rewrites the history: the old history stays a prefix of the new one. Every
  commit delivers exactly one change, the committed one, to the listeners of the document
  and emits exactly one \<open>change\<close> event.
\<close>

theorem history_appends_changes_with_ops:
  "(\<exists>s'. commit_all cs s = Inr s' \<and>
        history s' = history s @ filter (\<lambda>c. ops c \<noteq> []) (map stamped cs) \<and>
        notified s' = notified s @ map stamped cs \<and>
        emitted s' = emitted s @ map stamped cs) \<and>
   history (priv_onDocumentChange ch s) =
     history s @ (case ch of None \<Rightarrow> [] | Some c \<Rightarrow> if ops c \<noteq> [] then [c] else []) \<and>
   history (updateNodeStates exists ids silent s) = history s"
proof -
  have "history (priv_onDocumentChange ch s) =
     history s @ (case ch of None \<Rightarrow> [] | Some c \<Rightarrow> if ops c \<noteq> [] then [c] else [])"
    by (simp add: priv_onDocumentChange_def split: option.splits)
  moreover have "history (updateNodeStates exists ids silent s) = history s"
    by (simp add: updateNodeStates_def Let_def emit_change_def notifyChangeListeners_def
          priv_onDocumentChange_def)
  ultimately show ?thesis using commit_all_history[of cs s] by blast
qed

text \<open>
  Claim C8 as it is written fails: a committed change without operations reaches the
  listeners and is not appended to the history (the guard of \<open>_onDocumentChange\<close>).
\<close>

theorem commit_without_ops_not_in_history:
  "priv_commitChange (Some empty_change) 7 empty_session =
     Inr \<lparr>history = [],
          applied = [empty_change\<lparr>timestamp := Some 7\<rparr>],
          notified = [empty_change\<lparr>timestamp := Some 7\<rparr>],
          emitted = [empty_change\<lparr>timestamp := Some 7\<rparr>]\<rparr>"
  by (simp add: commit_history stamped_def empty_change_def empty_session_def)

theorem history_appends_changes_with_ops_witness:
  "\<exists>s'. commit_all [(some_change, 3), (empty_change, 7)] empty_session = Inr s' \<and>
        history s' = [some_change\<lparr>timestamp := Some 3\<rparr>] \<and>
        notified s' = [some_change\<lparr>timestamp := Some 3\<rparr>, empty_change\<lparr>timestamp := Some 7\<rparr>] \<and>
        emitted s' = [some_change\<lparr>timestamp := Some 3\<rparr>, empty_change\<lparr>timestamp := Some 7\<rparr>]"
  using history_appends_changes_with_ops[of "[(some_change, 3), (empty_change, 7)]" empty_session
          None "\<lambda>i. True" "[]" True]
  by (simp add: stamped_def empty_session_def some_change_def empty_change_def)

subsection \<open>Rendering is not re-entered\<close>

text \<open>
  Claim C9. Starting a render while one is in progress throws the error
  \<open>Component is rendering already.\<close> and leaves the component as it is, without calling
  the rendering engine. A render that starts with the flag clear returns what the engine
  returns or throws, and the flag is clear again afterwards, also when the engine has
  thrown. An engine that re-enters \<open>_render\<close> of the same component gets that error, and
  the flag is clear after the outer render.
\<close>

theorem render_blocks_reentrancy:
  "(isRendering c \<longrightarrow>
      priv_render engine c = (Some (Error ''Component is rendering already.''), c)) \<and>
   (\<not> isRendering c \<longrightarrow>
      priv_render engine c =
        (fst (engine (c\<lparr>isRendering := True\<rparr>)),
         (snd (engine (c\<lparr>isRendering := True\<rparr>)))\<lparr>isRendering := False\<rparr>) \<and>
      \<not> isRendering (snd (priv_render engine c)) \<and>
      priv_render (priv_render engine) c =
        (Some (Error ''Component is rendering already.''), c))"
  by (auto simp: priv_render_def split: prod.splits)

theorem render_blocks_reentrancy_witness:
  "isRendering \<lparr>isRendering = True\<rparr> \<and> \<not> isRendering \<lparr>isRendering = False\<rparr> \<and>
   priv_render throwing_engine \<lparr>isRendering = True\<rparr> =
     (Some (Error ''Component is rendering already.''), \<lparr>isRendering = True\<rparr>) \<and>
   priv_render throwing_engine \<lparr>isRendering = False\<rparr> =
     (Some (Error ''render failed''), \<lparr>isRendering = False\<rparr>) \<and>
   priv_render (priv_render throwing_engine) \<lparr>isRendering = False\<rparr> =
     (Some (Error ''Component is rendering already.''), \<lparr>isRendering = False\<rparr>)"
  using render_blocks_reentrancy[of "\<lparr>isRendering = True\<rparr>" throwing_engine]
        render_blocks_reentrancy[of "\<lparr>isRendering = False\<rparr>" throwing_engine]
  by (simp add: throwing_engine_def)

subsection \<open>Breaking and merging text nodes\<close>

lemma find_map_pres:
  assumes "\<And>a. anno_id (f a) = anno_id a"
  shows "find (\<lambda>a. anno_id a = j) (map f l) = map_option f (find (\<lambda>a. anno_id a = j) l)"
  using assms by (induction l) auto

lemma find_filter_keep:
  "find P l = Some a \<Longrightarrow> Q a \<Longrightarrow> find P (filter Q l) = Some a"
  by (induction l) (auto split: if_splits)

lemma get_anno_transferAnnotations:
  "get_anno (transferAnnotations t p off np no) j =
     map_option (\<lambda>a. if path (start a) = p \<and> off \<le> offset (start a)
                          then a\<lparr>start := \<lparr>path = np, offset = no + (offset (start a) - off)\<rparr>,
                                 end_c := \<lparr>path = np, offset = no + (offset (end_c a) - off)\<rparr>\<rparr>
                          else a) (get_anno t j)"
  unfolding get_anno_def transferAnnotations_def
  by (simp add: find_map_pres)

lemma get_anno_cong: "annos t = annos t' \<Longrightarrow> get_anno t j = get_anno t' j"
  by (simp add: get_anno_def)

lemma get_text_create_other:
  "i \<noteq> newId \<Longrightarrow> get_text (create newId nn t) [i, prop] = get_text t [i, prop]"
  by (simp add: get_text_def create_def update_conv')

lemma get_text_create_same:
  "isText nn \<Longrightarrow> get_text (create newId nn t) (getPath newId) = Some (content nn)"
  by (simp add: get_text_def create_def update_conv' getPath_def)

lemma update_text_fields:
  assumes "update_text t p opn = Inr t1"
  shows "containers t1 = containers t" "annos t1 = annos t" "selection t1 = selection t"
    "nodes t1 = set_content (hd p) (apply_text_op opn (the (get_text t p))) (nodes t)"
  using assms by (auto simp: update_text_def split: option.splits)

lemma get_text_set_content_other:
  assumes "nodes t1 = set_content i c (nodes t)" "j \<noteq> i"
  shows "get_text t1 [j, prop] = get_text t [j, prop]"
  using assms by (simp add: get_text_def map_of_set_content)

lemma insertAt_fields:
  assumes "map_of (containers t) cp = Some ids"
  shows "\<exists>t1. insertAt t cp pos i = Inr t1 \<and> nodes t1 = nodes t \<and> annos t1 = annos t \<and>
           map_of (containers t1) cp = Some (take pos ids @ [i] @ drop pos ids)"
  using assms by (simp add: insertAt_def update_conv')

lemma removeAt_fields:
  assumes "map_of (containers t) cp = Some ids"
  shows "\<exists>t1. removeAt t cp pos = Inr t1 \<and> nodes t1 = nodes t \<and> annos t1 = annos t \<and>
           map_of (containers t1) cp = Some (take pos ids @ drop (Suc pos) ids)"
  using assms by (simp add: removeAt_def update_conv')

lemma index_of_nth: "index_of x l = Some k \<Longrightarrow> k < length l \<and> l ! k = x"
  by (induction l arbitrary: k) (auto split: if_splits)

text \<open>
  Claim C3. Breaking the text node \<open>i\<close>, at position \<open>k\<close> of the container, at an offset
  \<open>o\<close> with \<open>0 < o < length\<close> succeeds, and afterwards: every annotation of the text
  property that starts at or after \<open>o\<close> is anchored on the new node with both offsets
  reduced by \<open>o\<close>; the original text is its first \<open>o\<close> code units and the new node holds
  the rest; the new node is at position \<open>k + 1\<close> of the container, right behind the
  original; the cursor is at the start of the new node.
\<close>

theorem break_transfers_annotations:
  assumes node: "map_of (nodes t) i = Some n" and tn: "isText n"
    and cont: "map_of (containers t) cp = Some ids" and posn: "index_of i ids = Some k"
    and off: "0 < off" "off < int (length (content n))"
    and fresh: "map_of (nodes t) newId = None"
  shows "\<exists>t'. priv_breakTextNode newId defaultTextType t i \<lparr>path = getPath i, offset = off\<rparr> cp = Inr t' \<and>
           get_text t' (getPath i) = Some (take (nat off) (content n)) \<and>
           map_of (nodes t') newId = Some (n\<lparr>content := drop (nat off) (content n)\<rparr>) \<and>
           ids ! k = i \<and>
           map_of (containers t') cp = Some (take (Suc k) ids @ [newId] @ drop (Suc k) ids) \<and>
           selection t' = PropertySelection (getPath newId) 0 0 (Some cp) \<and>
           (\<forall>j a. get_anno t j = Some a \<and> path (start a) = getPath i \<and> off \<le> offset (start a) \<longrightarrow>
                  get_anno t' j =
                    Some (a\<lparr>start := \<lparr>path = getPath newId, offset = offset (start a) - off\<rparr>,
                           end_c := \<lparr>path = getPath newId, offset = offset (end_c a) - off\<rparr>\<rparr>))"
proof -
  let ?p = "getPath i"
  let ?nn = "n\<lparr>content := drop (nat off) (content n)\<rparr>"
  let ?t1 = "create newId ?nn t"
  let ?ta = "transferAnnotations ?t1 ?p off (getPath newId) 0"
  have ne: "i \<noteq> newId" using node fresh by auto
  have gp: "getPosition t cp i = Some k" using cont posn by (simp add: getPosition_def)
  have g0: "get_text t ?p = Some (content n)"
    using node tn by (simp add: get_text_def getPath_def)
  have g1: "get_text ?ta ?p = Some (content n)"
  proof -
    have "get_text ?ta ?p = get_text ?t1 ?p"
      by (rule get_text_cong) (simp add: transferAnnotations_def)
    also have "\<dots> = get_text t ?p" unfolding getPath_def using ne by (rule get_text_create_other)
    finally show ?thesis using g0 by simp
  qed
  from get_text_update_text[OF g1, of "TextDelete off (int (length (content n)))"]
  obtain t2 where t2: "update_text ?ta ?p (TextDelete off (int (length (content n)))) = Inr t2"
    and g2: "get_text t2 ?p = Some (take (nat off) (content n))"
    and a2: "annos t2 = annos ?ta" by auto
  note f2 = update_text_fields[OF t2]
  have c2: "map_of (containers t2) cp = Some ids"
    using f2(1) cont by (simp add: transferAnnotations_def create_def)
  from insertAt_fields[OF c2, of "k + 1" newId]
  obtain t3 where t3: "insertAt t2 cp (k + 1) newId = Inr t3" and n3: "nodes t3 = nodes t2"
    and a3: "annos t3 = annos t2"
    and c3: "map_of (containers t3) cp = Some (take (Suc k) ids @ [newId] @ drop (Suc k) ids)"
    by auto
  let ?t' = "setSelection (PropertySelection (getPath newId) 0 0 (Some cp)) t3"
  have run: "priv_breakTextNode newId defaultTextType t i \<lparr>path = ?p, offset = off\<rparr> cp = Inr ?t'"
    using node gp off t2 t3 by (simp add: priv_breakTextNode_def Let_def)
  have nodes': "nodes ?t' = nodes t2" using n3 by (simp add: setSelection_def)
  have r1: "get_text ?t' ?p = Some (take (nat off) (content n))"
    using g2 get_text_cong[OF nodes'] by simp
  have "map_of (nodes t2) newId = map_of (nodes ?ta) newId"
    using f2(4) ne by (simp add: map_of_set_content getPath_def)
  then have r2: "map_of (nodes ?t') newId = Some ?nn"
    using nodes' by (simp add: transferAnnotations_def create_def update_conv')
  have r3: "ids ! k = i" using index_of_nth[OF posn] by simp
  have r4: "map_of (containers ?t') cp = Some (take (Suc k) ids @ [newId] @ drop (Suc k) ids)"
    using c3 by (simp add: setSelection_def)
  have r5: "selection ?t' = PropertySelection (getPath newId) 0 0 (Some cp)"
    by (simp add: setSelection_def)
  have annos': "annos ?t' = annos ?ta" using a3 a2 by (simp add: setSelection_def)
  have r6: "\<forall>j a. get_anno t j = Some a \<and> path (start a) = ?p \<and> off \<le> offset (start a) \<longrightarrow>
                  get_anno ?t' j =
                    Some (a\<lparr>start := \<lparr>path = getPath newId, offset = offset (start a) - off\<rparr>,
                           end_c := \<lparr>path = getPath newId, offset = offset (end_c a) - off\<rparr>\<rparr>)"
  proof (intro allI impI)
    fix j a
    assume h: "get_anno t j = Some a \<and> path (start a) = ?p \<and> off \<le> offset (start a)"
    have "get_anno ?t1 j = get_anno t j" by (rule get_anno_cong) (simp add: create_def)
    then show "get_anno ?t' j =
                    Some (a\<lparr>start := \<lparr>path = getPath newId, offset = offset (start a) - off\<rparr>,
                           end_c := \<lparr>path = getPath newId, offset = offset (end_c a) - off\<rparr>\<rparr>)"
      using h get_anno_cong[OF annos', of j] by (simp add: get_anno_transferAnnotations)
  qed
  from run r1 r2 r3 r4 r5 r6 show ?thesis by blast
qed

theorem break_transfers_annotations_witness:
  "map_of (nodes example_two) ''p1'' =
     Some \<lparr>ntype = ''paragraph'', kind = TextKind, content = [97, 98, 99, 100]\<rparr> \<and>
   map_of (containers example_two) [''body'', ''nodes''] = Some [''p1'', ''p2''] \<and>
   index_of ''p1'' [''p1'', ''p2''] = Some 0 \<and>
   map_of (nodes example_two) ''p3'' = None \<and>
   get_anno example_two ''a2'' = Some example_a2' \<and>
   (\<exists>t'. priv_breakTextNode ''p3'' ''paragraph'' example_two ''p1''
            \<lparr>path = [''p1'', ''content''], offset = 2\<rparr> [''body'', ''nodes''] = Inr t' \<and>
         get_text t' [''p1'', ''content''] = Some [97, 98] \<and>
         map_of (nodes t') ''p3'' =
           Some \<lparr>ntype = ''paragraph'', kind = TextKind, content = [99, 100]\<rparr> \<and>
         map_of (containers t') [''body'', ''nodes''] = Some [''p1'', ''p3'', ''p2''] \<and>
         selection t' = PropertySelection [''p3'', ''content''] 0 0 (Some [''body'', ''nodes'']) \<and>
         get_anno t' ''a2'' =
           Some (example_a2'\<lparr>start := \<lparr>path = [''p3'', ''content''], offset = 0\<rparr>,
                             end_c := \<lparr>path = [''p3'', ''content''], offset = 2\<rparr>\<rparr>))"
proof -
  let ?n = "\<lparr>ntype = ''paragraph'', kind = TextKind, content = [97, 98, 99, 100]\<rparr>"
  have h1: "map_of (nodes example_two) ''p1'' = Some ?n" by (simp add: example_two_def)
  have h2: "isText ?n" by (simp add: isText_def)
  have h3: "map_of (containers example_two) [''body'', ''nodes''] = Some [''p1'', ''p2'']"
    by (simp add: example_two_def)
  have h4: "index_of ''p1'' [''p1'', ''p2''] = Some 0" by simp
  have h5: "(0::int) < 2" "(2::int) < int (length (content ?n))" by simp_all
  have h6: "map_of (nodes example_two) ''p3'' = None" by (simp add: example_two_def)
  have h7: "get_anno example_two ''a2'' = Some example_a2'"
    by (simp add: example_two_def get_anno_def example_a2'_def)
  have h8: "path (start example_a2') = getPath ''p1''" "2 \<le> offset (start example_a2')"
    "offset (start example_a2') - 2 = 0" "offset (end_c example_a2') - 2 = 2"
    by (simp_all add: example_a2'_def getPath_def)
  from break_transfers_annotations[OF h1 h2 h3 h4 h5 h6, of "''paragraph''"]
  obtain t' where run: "priv_breakTextNode ''p3'' ''paragraph'' example_two ''p1''
            \<lparr>path = getPath ''p1'', offset = 2\<rparr> [''body'', ''nodes''] = Inr t'"
    and r: "get_text t' (getPath ''p1'') = Some (take (nat 2) (content ?n))"
      "map_of (nodes t') ''p3'' = Some (?n\<lparr>content := drop (nat 2) (content ?n)\<rparr>)"
      "map_of (containers t') [''body'', ''nodes''] =
         Some (take (Suc 0) [''p1'', ''p2''] @ [''p3''] @ drop (Suc 0) [''p1'', ''p2''])"
      "selection t' = PropertySelection (getPath ''p3'') 0 0 (Some [''body'', ''nodes''])"
    and al: "\<forall>j a. get_anno example_two j = Some a \<and> path (start a) = getPath ''p1'' \<and>
                  2 \<le> offset (start a) \<longrightarrow>
                  get_anno t' j =
                    Some (a\<lparr>start := \<lparr>path = getPath ''p3'', offset = offset (start a) - 2\<rparr>,
                           end_c := \<lparr>path = getPath ''p3'', offset = offset (end_c a) - 2\<rparr>\<rparr>)"
    by blast
  from al[rule_format, of "''a2''" example_a2'] h7 h8
  have a: "get_anno t' ''a2'' =
           Some (example_a2'\<lparr>start := \<lparr>path = [''p3'', ''content''], offset = 0\<rparr>,
                             end_c := \<lparr>path = [''p3'', ''content''], offset = 2\<rparr>\<rparr>)"
    by (simp add: getPath_def)
  show ?thesis using h1 h3 h4 h6 h7 run r a by (simp add: getPath_def)
qed


lemma get_text_deepDeleteNode:
  "i \<noteq> d \<Longrightarrow> get_text (deepDeleteNode d t) [i, prop] = get_text t [i, prop]"
  by (simp add: get_text_def deepDeleteNode_def delete_conv')

text \<open>
  Claim C4. Merging the text node \<open>se\<close> into the non-empty text node \<open>fi\<close> before it
  succeeds. Its steps are, in this order: the source is taken out of the container, its
  text is inserted into the target at \<open>L\<close>, the annotations of the source are transferred,
  the source is deleted with what is still attached to it, the selection is set.
  Afterwards: the text of the target is its old text followed by the text of
  the source; every annotation of the source property is anchored on the target property
  with both offsets increased by \<open>L\<close>, the length of the target before the merge, and is
  still in the document, so it was moved before the source was deleted; the source node is
  gone from the container and from the document, and no annotation is attached to it any
  more; the selection is collapsed at offset \<open>L\<close> of the target.
\<close>

theorem merge_appends_and_transfers:
  assumes cont: "map_of (containers t) cp = Some ids"
    and len: "pos + 1 < length ids"
    and fi: "ids ! pos = fi" and se: "ids ! (pos + 1) = se" and ne: "fi \<noteq> se"
    and nf: "map_of (nodes t) fi = Some f" and tf: "isText f" and ef: "\<not> isEmpty f"
    and ng: "map_of (nodes t) se = Some g" and tg: "isText g"
    and L: "L = int (length (content f))"
  shows "\<exists>t1 t2 t'.
           removeAt t cp (pos + 1) = Inr t1 \<and>
           update_text t1 (getPath fi) (TextInsert L (content g)) = Inr t2 \<and>
           t' = setSelection (PropertySelection (getPath fi) L L (Some cp))
                  (deepDeleteNode se (transferAnnotations t2 (getPath se) 0 (getPath fi) L)) \<and>
           priv_mergeNodes other t cp pos direction = Inr t' \<and>
           get_text t' (getPath fi) = Some (content f @ content g) \<and>
           map_of (nodes t') se = None \<and>
           map_of (containers t') cp = Some (take (Suc pos) ids @ drop (Suc (Suc pos)) ids) \<and>
           selection t' = PropertySelection (getPath fi) L L (Some cp) \<and>
           (\<forall>j a. get_anno t j = Some a \<and> path (start a) = getPath se \<and> 0 \<le> offset (start a) \<longrightarrow>
                  get_anno t' j =
                    Some (a\<lparr>start := \<lparr>path = getPath fi, offset = L + offset (start a)\<rparr>,
                           end_c := \<lparr>path = getPath fi, offset = L + offset (end_c a)\<rparr>\<rparr>)) \<and>
           (\<forall>a\<in>set (annos t'). anno_parent a \<noteq> Some se)"
proof -
  let ?tp = "getPath fi" and ?sp = "getPath se"
  from removeAt_fields[OF cont, of "pos + 1"]
  obtain t1 where t1: "removeAt t cp (pos + 1) = Inr t1" and n1: "nodes t1 = nodes t"
    and a1: "annos t1 = annos t"
    and c1: "map_of (containers t1) cp = Some (take (Suc pos) ids @ drop (Suc (Suc pos)) ids)"
    by auto
  have "get_text t ?tp = Some (content f)"
    using nf tf by (simp add: get_text_def getPath_def)
  then have g1: "get_text t1 ?tp = Some (content f)"
    using get_text_cong[OF n1] by simp
  from get_text_update_text[OF g1, of "TextInsert L (content g)"]
  obtain t2 where t2: "update_text t1 ?tp (TextInsert L (content g)) = Inr t2"
    and g2: "get_text t2 ?tp = Some (content f @ content g)"
    and a2: "annos t2 = annos t1" using L by auto
  note f2 = update_text_fields[OF t2]
  let ?ta = "transferAnnotations t2 ?sp 0 ?tp L"
  let ?td = "deepDeleteNode se ?ta"
  let ?t' = "setSelection (PropertySelection ?tp L L (Some cp)) ?td"
  have run: "priv_mergeNodes other t cp pos direction = Inr ?t'"
    using cont len fi se nf tf ef ng tg t1 t2 L
    by (simp add: priv_mergeNodes_def Let_def)
  have "get_text ?t' ?tp = get_text ?td ?tp"
    by (rule get_text_cong) (simp add: setSelection_def)
  also have "\<dots> = get_text ?ta ?tp"
    unfolding getPath_def using ne by (rule get_text_deepDeleteNode)
  also have "\<dots> = get_text t2 ?tp"
    by (rule get_text_cong) (simp add: transferAnnotations_def)
  finally have r1: "get_text ?t' ?tp = Some (content f @ content g)" using g2 by simp
  have r2: "map_of (nodes ?t') se = None"
    by (simp add: setSelection_def deepDeleteNode_def delete_conv')
  have r3: "map_of (containers ?t') cp = Some (take (Suc pos) ids @ drop (Suc (Suc pos)) ids)"
    using c1 f2(1) by (simp add: setSelection_def deepDeleteNode_def transferAnnotations_def)
  have r4: "selection ?t' = PropertySelection ?tp L L (Some cp)"
    by (simp add: setSelection_def)
  have r5: "\<forall>j a. get_anno t j = Some a \<and> path (start a) = ?sp \<and> 0 \<le> offset (start a) \<longrightarrow>
                  get_anno ?t' j =
                    Some (a\<lparr>start := \<lparr>path = ?tp, offset = L + offset (start a)\<rparr>,
                           end_c := \<lparr>path = ?tp, offset = L + offset (end_c a)\<rparr>\<rparr>)"
  proof (intro allI impI)
    fix j a
    assume h: "get_anno t j = Some a \<and> path (start a) = ?sp \<and> 0 \<le> offset (start a)"
    let ?a' = "a\<lparr>start := \<lparr>path = ?tp, offset = L + offset (start a)\<rparr>,
                           end_c := \<lparr>path = ?tp, offset = L + offset (end_c a)\<rparr>\<rparr>"
    have "get_anno t2 j = Some a" using h get_anno_cong[of t2 t j] a2 a1 by simp
    then have ta: "get_anno ?ta j = Some ?a'"
      using h by (simp add: get_anno_transferAnnotations)
    have keep: "anno_parent ?a' \<noteq> Some se" using ne by (simp add: anno_parent_def getPath_def)
    have "find (\<lambda>x. anno_id x = j) (filter (\<lambda>x. anno_parent x \<noteq> Some se) (annos ?ta)) = Some ?a'"
      using ta keep unfolding get_anno_def by (rule find_filter_keep)
    then show "get_anno ?t' j = Some ?a'"
      by (simp add: get_anno_def setSelection_def deepDeleteNode_def)
  qed
  have r6: "\<forall>a\<in>set (annos ?t'). anno_parent a \<noteq> Some se"
    by (simp add: setSelection_def deepDeleteNode_def)
  from t1 t2 run r1 r2 r3 r4 r5 r6 show ?thesis by blast
qed


theorem merge_appends_and_transfers_witness:
  "map_of (containers example_two) [''body'', ''nodes''] = Some [''p1'', ''p2''] \<and>
   map_of (nodes example_two) ''p1'' =
     Some \<lparr>ntype = ''paragraph'', kind = TextKind, content = [97, 98, 99, 100]\<rparr> \<and>
   map_of (nodes example_two) ''p2'' =
     Some \<lparr>ntype = ''paragraph'', kind = TextKind, content = [101, 102]\<rparr> \<and>
   get_anno example_two ''a3'' = Some example_a3 \<and>
   (\<exists>t'. priv_mergeNodes unreached example_two [''body'', ''nodes''] 0 ''right'' = Inr t' \<and>
         get_text t' [''p1'', ''content''] = Some [97, 98, 99, 100, 101, 102] \<and>
         map_of (nodes t') ''p2'' = None \<and>
         map_of (containers t') [''body'', ''nodes''] = Some [''p1''] \<and>
         selection t' = PropertySelection [''p1'', ''content''] 4 4 (Some [''body'', ''nodes'']) \<and>
         get_anno t' ''a3'' =
           Some (example_a3\<lparr>start := \<lparr>path = [''p1'', ''content''], offset = 5\<rparr>,
                            end_c := \<lparr>path = [''p1'', ''content''], offset = 6\<rparr>\<rparr>))"
proof -
  let ?f = "\<lparr>ntype = ''paragraph'', kind = TextKind, content = [97, 98, 99, 100]\<rparr>"
  let ?g = "\<lparr>ntype = ''paragraph'', kind = TextKind, content = [101, 102]\<rparr>"
  have h1: "map_of (containers example_two) [''body'', ''nodes''] = Some [''p1'', ''p2'']"
    by (simp add: example_two_def)
  have h2: "0 + 1 < length [''p1'', ''p2'']" by simp
  have h3: "[''p1'', ''p2''] ! 0 = ''p1''" "[''p1'', ''p2''] ! (0 + 1) = ''p2''" "''p1'' \<noteq> ''p2''"
    by simp_all
  have h4: "map_of (nodes example_two) ''p1'' = Some ?f" by (simp add: example_two_def)
  have h5: "isText ?f" "\<not> isEmpty ?f" by (simp_all add: isText_def isEmpty_def)
  have h6: "map_of (nodes example_two) ''p2'' = Some ?g" by (simp add: example_two_def)
  have h7: "isText ?g" by (simp add: isText_def)
  have h8: "(4::int) = int (length (content ?f))" by simp
  have h9: "get_anno example_two ''a3'' = Some example_a3"
    by (simp add: example_two_def get_anno_def example_a3_def)
  have h10: "path (start example_a3) = getPath ''p2''" "0 \<le> offset (start example_a3)"
    "4 + offset (start example_a3) = 5" "4 + offset (end_c example_a3) = 6"
    by (simp_all add: example_a3_def getPath_def)
  from merge_appends_and_transfers[OF h1 h2 h3 h4 h5 h6 h7 h8, of unreached "''right''"]
  obtain t1 :: tx and t2 :: tx and t' where run: "priv_mergeNodes unreached example_two [''body'', ''nodes''] 0 ''right'' = Inr t'"
    and r: "get_text t' (getPath ''p1'') = Some (content ?f @ content ?g)"
      "map_of (nodes t') ''p2'' = None"
      "map_of (containers t') [''body'', ''nodes''] =
         Some (take (Suc 0) [''p1'', ''p2''] @ drop (Suc (Suc 0)) [''p1'', ''p2''])"
      "selection t' = PropertySelection (getPath ''p1'') 4 4 (Some [''body'', ''nodes''])"
    and al: "\<forall>j a. get_anno example_two j = Some a \<and> path (start a) = getPath ''p2'' \<and>
                  0 \<le> offset (start a) \<longrightarrow>
                  get_anno t' j =
                    Some (a\<lparr>start := \<lparr>path = getPath ''p1'', offset = 4 + offset (start a)\<rparr>,
                           end_c := \<lparr>path = getPath ''p1'', offset = 4 + offset (end_c a)\<rparr>\<rparr>)"
    by blast
  from al[rule_format, of "''a3''" example_a3] h9 h10
  have a: "get_anno t' ''a3'' =
           Some (example_a3\<lparr>start := \<lparr>path = [''p1'', ''content''], offset = 5\<rparr>,
                            end_c := \<lparr>path = [''p1'', ''content''], offset = 6\<rparr>\<rparr>)"
    by (simp add: getPath_def)
  show ?thesis using h1 h4 h6 h9 run r a by (simp add: getPath_def)
qed

subsection \<open>Fusing annotations\<close>

lemma earliest_first_min:
  "\<exists>pre post. b # as = pre @ earliest key b as # post \<and>
      (\<forall>y\<in>set pre. key (earliest key b as) < key y) \<and>
      (\<forall>y\<in>set post. key (earliest key b as) \<le> key y)"
proof (induction as arbitrary: b)
  case Nil
  have "[b] = [] @ b # []" by simp
  then show ?case by (metis earliest.simps(1) empty_iff list.set(1))
next
  case (Cons a as)
  define b' where "b' = (if key a < key b then a else b)"
  define e where "e = earliest key b' as"
  from Cons.IH[of b'] obtain pre post where d: "b' # as = pre @ e # post"
    and lo: "\<forall>y\<in>set pre. key e < key y" and hi: "\<forall>y\<in>set post. key e \<le> key y"
    unfolding e_def by blast
  have eq: "earliest key b (a # as) = e" by (simp add: e_def b'_def)
  have le: "key e \<le> key b'"
  proof (cases pre)
    case Nil
    with d show ?thesis by simp
  next
    case (Cons x xs)
    with d have "b' \<in> set pre" by simp
    with lo show ?thesis by force
  qed
  show ?case
  proof (cases "key a < key b")
    case True
    then have b': "b' = a" by (simp add: b'_def)
    have "b # a # as = (b # pre) @ e # post" using d b' by simp
    moreover have "\<forall>y\<in>set (b # pre). key e < key y" using lo le True b' by auto
    ultimately show ?thesis unfolding eq using hi by blast
  next
    case False
    then have b': "b' = b" by (simp add: b'_def)
    show ?thesis
    proof (cases pre)
      case Nil
      with d b' have eb: "e = b" and pa: "post = as" by simp_all
      have "b # a # as = [] @ e # (a # as)" using eb by simp
      moreover have "\<forall>y\<in>set (a # as). key e \<le> key y"
        using hi False eb pa by auto
      ultimately show ?thesis unfolding eq by (metis empty_iff list.set(1))
    next
      case (Cons x xs)
      with d b' have x: "x = b" and as: "as = xs @ e # post" by simp_all
      have eb: "key e < key b" using lo Cons x by simp
      then have ea: "key e < key a" using False by simp
      have "b # a # as = (b # a # xs) @ e # post" using as by simp
      moreover have "\<forall>y\<in>set (b # a # xs). key e < key y" using lo Cons eb ea by simp
      ultimately show ?thesis unfolding eq using hi by blast
    qed
  qed
qed

lemma latest_max:
  "latest key b as \<in> set (b # as) \<and> (\<forall>y\<in>set (b # as). key y \<le> key (latest key b as))"
proof (induction as arbitrary: b)
  case Nil
  show ?case by simp
next
  case (Cons a as)
  define b' where "b' = (if key b < key a then a else b)"
  from Cons.IH[of b'] have m: "latest key b' as \<in> set (b' # as)"
    and hi: "\<forall>y\<in>set (b' # as). key y \<le> key (latest key b' as)" by auto
  have eq: "latest key b (a # as) = latest key b' as" by (simp add: b'_def)
  have "key b \<le> key b'" "key a \<le> key b'" by (auto simp: b'_def)
  moreover have "key b' \<le> key (latest key b' as)" using hi by simp
  ultimately have "key b \<le> key (latest key b' as)" "key a \<le> key (latest key b' as)"
    by (meson order_trans)+
  moreover have "b' = a \<or> b' = b" by (simp add: b'_def)
  ultimately show ?case unfolding eq using m hi by auto
qed

lemma get_anno_fold_delete:
  "get_anno (fold (\<lambda>a. delete_anno (anno_id a)) ds t) i =
     (if i \<in> anno_id ` set ds then None else get_anno t i)"
  by (induction ds arbitrary: t) (auto simp: get_anno_delete_anno)

lemma get_anno_set_end:
  "get_anno (set_end j c t) i =
     (if i = j then map_option (\<lambda>a. a\<lparr>end_c := c\<rparr>) (get_anno t i) else get_anno t i)"
  unfolding get_anno_def set_end_def by (simp add: find_map_upd)

text \<open>
  Claim C5. For two or more annotations of one type that are in the document (with
  coordinates in the container that orders them), \<open>fuseAnnotation\<close> succeeds and keeps the
  annotation \<open>sv\<close> that is the first in input order among those with the earliest start:
  every annotation before it in the input starts strictly later, every one after it does
  not start earlier. Afterwards \<open>sv\<close> has its old start, the earliest, and its end is the
  latest end among the inputs; every other input annotation is no longer in the document.
\<close>

theorem fuse_keeps_earliest:
  assumes len: "2 \<le> length as"
    and same: "\<forall>a\<in>set as. anno_type a = anno_type (hd as)"
    and keys: "\<forall>a\<in>set as. coor_key order (start a) \<noteq> None \<and> coor_key order (end_c a) \<noteq> None"
    and indoc: "\<forall>a\<in>set as. get_anno t (anno_id a) = Some a"
    and sv: "sv = survivor order as" and la: "la = latest_end order as"
  shows "\<exists>t'. fuseAnnotation order t as = Inr t' \<and>
           (\<exists>pre post. as = pre @ sv # post \<and>
              (\<forall>y\<in>set pre. the (coor_key order (start sv)) < the (coor_key order (start y))) \<and>
              (\<forall>y\<in>set post. the (coor_key order (start sv)) \<le> the (coor_key order (start y)))) \<and>
           la \<in> set as \<and>
           (\<forall>y\<in>set as. the (coor_key order (end_c y)) \<le> the (coor_key order (end_c la))) \<and>
           get_anno t' (anno_id sv) = Some (sv\<lparr>end_c := end_c la\<rparr>) \<and>
           (\<forall>a\<in>set as. anno_id a \<noteq> anno_id sv \<longrightarrow> get_anno t' (anno_id a) = None)"
proof -
  let ?sk = "\<lambda>a. the (coor_key order (start a))" and ?ek = "\<lambda>a. the (coor_key order (end_c a))"
  from len obtain b bs where as: "as = b # bs" by (cases as) auto
  define ds where "ds = filter (\<lambda>a. anno_id a \<noteq> anno_id sv) as"
  define t1 where "t1 = fold (\<lambda>a. delete_anno (anno_id a)) ds t"
  define t' where "t' = set_end (anno_id sv) (end_c la) t1"
  have sve: "earliest ?sk b bs = sv" using sv by (simp add: survivor_def as)
  have lae: "latest ?ek b bs = la" using la by (simp add: latest_end_def as)
  from earliest_first_min[of b bs ?sk] obtain pre post where d0: "b # bs = pre @ sv # post"
    and lo: "\<forall>y\<in>set pre. ?sk sv < ?sk y" and hi: "\<forall>y\<in>set post. ?sk sv \<le> ?sk y"
    unfolding sve by blast
  have d: "as = pre @ sv # post" using d0 as by simp
  from latest_max[of ?ek b bs] have lm: "la \<in> set as" and lh: "\<forall>y\<in>set as. ?ek y \<le> ?ek la"
    unfolding lae as by blast+
  have c1: "\<not> length as < 2" using len by simp
  have c2: "\<not> list_ex (\<lambda>a. anno_type a \<noteq> anno_type (hd as)) as"
    using same by (simp add: list_ex_iff)
  have c3: "\<not> list_ex (\<lambda>a. coor_key order (start a) = None \<or> coor_key order (end_c a) = None) as"
    using keys by (simp add: list_ex_iff)
  have run: "fuseAnnotation order t as = Inr t'"
    unfolding fuseAnnotation_def t'_def t1_def ds_def sv la Let_def
    using c1 c2 c3 by simp
  have svin: "sv \<in> set as" using d by simp
  have "anno_id sv \<notin> anno_id ` set ds" by (auto simp: ds_def)
  then have "get_anno t1 (anno_id sv) = Some sv"
    using indoc svin by (simp add: t1_def get_anno_fold_delete)
  then have r1: "get_anno t' (anno_id sv) = Some (sv\<lparr>end_c := end_c la\<rparr>)"
    by (simp add: t'_def get_anno_set_end)
  have r2: "\<forall>a\<in>set as. anno_id a \<noteq> anno_id sv \<longrightarrow> get_anno t' (anno_id a) = None"
  proof (intro ballI impI)
    fix a assume a: "a \<in> set as" "anno_id a \<noteq> anno_id sv"
    then have "anno_id a \<in> anno_id ` set ds" by (auto simp: ds_def)
    then have "get_anno t1 (anno_id a) = None" by (simp add: t1_def get_anno_fold_delete)
    then show "get_anno t' (anno_id a) = None" using a(2) by (simp add: t'_def get_anno_set_end)
  qed
  from run d lo hi lm lh r1 r2 show ?thesis by blast
qed

theorem fuse_keeps_earliest_witness:
  "(2::nat) \<le> length [fuse_a2, fuse_a1] \<and>
   anno_type fuse_a1 = anno_type fuse_a2 \<and>
   coor_key [''p1''] (start fuse_a1) = Some (0, 0) \<and> coor_key [''p1''] (end_c fuse_a1) = Some (0, 2) \<and>
   coor_key [''p1''] (start fuse_a2) = Some (0, 4) \<and> coor_key [''p1''] (end_c fuse_a2) = Some (0, 6) \<and>
   get_anno example_fuse ''a1'' = Some fuse_a1 \<and> get_anno example_fuse ''a2'' = Some fuse_a2 \<and>
   fuse_a1 = survivor [''p1''] [fuse_a2, fuse_a1] \<and>
   fuse_a2 = latest_end [''p1''] [fuse_a2, fuse_a1] \<and>
   (\<exists>t'. fuseAnnotation [''p1''] example_fuse [fuse_a2, fuse_a1] = Inr t' \<and>
         get_anno t' ''a1'' =
           Some (fuse_a1\<lparr>end_c := \<lparr>path = [''p1'', ''content''], offset = 6\<rparr>\<rparr>) \<and>
         get_anno t' ''a2'' = None)"
proof -
  let ?as = "[fuse_a2, fuse_a1]"
  have h1: "(2::nat) \<le> length ?as" by simp
  have h2: "\<forall>a\<in>set ?as. anno_type a = anno_type (hd ?as)"
    by (simp add: fuse_a1_def fuse_a2_def)
  have h3: "\<forall>a\<in>set ?as. coor_key [''p1''] (start a) \<noteq> None \<and> coor_key [''p1''] (end_c a) \<noteq> None"
    by (simp add: fuse_a1_def fuse_a2_def coor_key_def)
  have h4: "\<forall>a\<in>set ?as. get_anno example_fuse (anno_id a) = Some a"
    by (simp add: fuse_a1_def fuse_a2_def get_anno_def example_fuse_def)
  have h5: "fuse_a1 = survivor [''p1''] ?as"
    by (simp add: survivor_def coor_key_def fuse_a1_def fuse_a2_def)
  have h6: "fuse_a2 = latest_end [''p1''] ?as"
    by (simp add: latest_end_def coor_key_def fuse_a1_def fuse_a2_def)
  have ids: "anno_id fuse_a1 = ''a1''" "anno_id fuse_a2 = ''a2''"
    "end_c fuse_a2 = \<lparr>path = [''p1'', ''content''], offset = 6\<rparr>"
    by (simp_all add: fuse_a1_def fuse_a2_def)
  from fuse_keeps_earliest[OF h1 h2 h3 h4 h5 h6]
  obtain t' where run: "fuseAnnotation [''p1''] example_fuse ?as = Inr t'"
    and sv: "get_anno t' (anno_id fuse_a1) = Some (fuse_a1\<lparr>end_c := end_c fuse_a2\<rparr>)"
    and oth: "\<forall>a\<in>set ?as. anno_id a \<noteq> anno_id fuse_a1 \<longrightarrow> get_anno t' (anno_id a) = None"
    by blast
  from oth have "get_anno t' ''a2'' = None" using ids by simp
  moreover have "anno_type fuse_a1 = anno_type fuse_a2"
    "coor_key [''p1''] (start fuse_a1) = Some (0, 0)" "coor_key [''p1''] (end_c fuse_a1) = Some (0, 2)"
    "coor_key [''p1''] (start fuse_a2) = Some (0, 4)" "coor_key [''p1''] (end_c fuse_a2) = Some (0, 6)"
    "get_anno example_fuse ''a1'' = Some fuse_a1" "get_anno example_fuse ''a2'' = Some fuse_a2"
    by (simp_all add: fuse_a1_def fuse_a2_def coor_key_def get_anno_def example_fuse_def)
  ultimately show ?thesis using h1 h5 h6 run sv ids by simp
qed

subsection \<open>Indices are called once per mutation\<close>


lemma indices_dnodes_update: "indices (d\<lparr>dnodes := x\<rparr>) = indices d"
  by simp


subsection \<open>Parents follow the owned references\<close>

lemma dnodes_notify_all: "dnodes (notify_all c d) = dnodes d"
  by (simp add: notify_all_def)

lemma dnodes_doc_create: "dnodes (doc_create i n d) = AList.update i n (dnodes d)"
  by (simp add: doc_create_def dnodes_notify_all)

lemma set_update_subset: "set (AList.update k v al) \<subseteq> insert (k, v) (set al)"
  by (induction al) auto

lemma set_update_distinct:
  "distinct (map fst al) \<Longrightarrow> set (AList.update k v al) = insert (k, v) {x \<in> set al. fst x \<noteq> k}"
  by (induction al) (auto simp: image_iff)

lemma in_update_same: "(k, v) \<in> set (AList.update k v al)"
  by (induction al) auto

lemma in_update_other: "(k, v) \<in> set al \<Longrightarrow> k \<noteq> k' \<Longrightarrow> (k, v) \<in> set (AList.update k' v' al)"
  by (induction al) auto

lemma getParent_only_owner:
  assumes mem: "(a, n) \<in> set (dnodes d)" and ow: "owns sch n b"
    and only: "\<forall>(i', n')\<in>set (dnodes d). owns sch n' b \<longrightarrow> i' = a"
  shows "getParent sch d b = Some a"
proof -
  let ?P = "\<lambda>(i, n). owns sch n b"
  have "\<exists>x\<in>set (dnodes d). ?P x" using mem ow by force
  then obtain x where x: "find ?P (dnodes d) = Some x"
    by (cases "find ?P (dnodes d)") (auto simp: find_None_iff)
  then have "x \<in> set (dnodes d)" "?P x"
    by (auto simp: find_Some_iff in_set_conv_nth)
  then have "fst x = a" using only by auto
  then show ?thesis using x by (simp add: getParent_def)
qed

lemma no_owner:
  assumes "\<forall>(i', n')\<in>set (dnodes d). \<not> owns sch n' b"
  shows "find (\<lambda>(i, n). owns sch n b) (dnodes d) = None"
  using assms by (auto simp: find_None_iff)

lemma xpath_of_root:
  assumes "find (\<lambda>(i, n). owns sch n b) (dnodes d) = None" and "map_of (dnodes d) b = Some nb"
  shows "getParent sch d b = None"
    and "map_option toArray (getXpath (Suc fuel) sch d b) =
           Some [\<lparr>xid = b, xtype = dtype nb, xproperty = None, xpos = None\<rparr>]"
  using assms by (simp_all add: getParent_def owner_slot_def)

lemma not_owns_put_prop:
  assumes dp: "distinct (map fst (props n))"
    and only: "\<forall>(q, v)\<in>set (props n). (dtype n, q) \<in> set (owned sch) \<and> holds v b \<longrightarrow> q = p"
    and nh: "\<not> holds v' b"
  shows "\<not> owns sch (put_prop p v' n) b"
proof -
  have "set (props (put_prop p v' n)) = insert (p, v') {x \<in> set (props n). fst x \<noteq> p}"
    using dp by (simp add: put_prop_def set_update_distinct)
  then show ?thesis using only nh
    by (auto simp: owns_def list_ex_iff put_prop_def)
qed

lemma doc_set_removes_parent:
  assumes dn: "distinct (map fst (dnodes d))"
    and na: "map_of (dnodes d) a = Some n"
    and nb: "map_of (dnodes d) b = Some m"
    and only: "\<forall>(i', n')\<in>set (dnodes d). owns sch n' b \<longrightarrow> i' = a"
    and dp: "distinct (map fst (props n))"
    and onlyp: "\<forall>(q, v)\<in>set (props n). (dtype n, q) \<in> set (owned sch) \<and> holds v b \<longrightarrow> q = p"
    and nh: "\<not> holds v' b"
  shows "\<exists>d'. doc_set a p v' d = Inr d' \<and> getParent sch d' b = None \<and>
           map_option toArray (getXpath (Suc fuel) sch d' b) =
             Some [\<lparr>xid = b, xtype = dtype m, xproperty = None, xpos = None\<rparr>]"
proof -
  let ?n' = "put_prop p v' n"
  let ?d' = "notify_all (Updated (a, ?n') [a, p] v' (get_prop n p))
                 (d\<lparr>dnodes := AList.update a ?n' (dnodes d)\<rparr>)"
  have run: "doc_set a p v' d = Inr ?d'" using na by (simp add: doc_set_def)
  have dn': "dnodes ?d' = AList.update a ?n' (dnodes d)" by (simp add: dnodes_notify_all)
  have no: "\<not> owns sch ?n' b" using dp onlyp nh by (rule not_owns_put_prop)
  have "set (dnodes ?d') = insert (a, ?n') {x \<in> set (dnodes d). fst x \<noteq> a}"
    unfolding dn' using dn by (rule set_update_distinct)
  then have "\<forall>(i', n')\<in>set (dnodes ?d'). \<not> owns sch n' b"
    using no only by auto
  then have f: "find (\<lambda>(i, n). owns sch n b) (dnodes ?d') = None" by (rule no_owner)
  have "\<exists>m'. map_of (dnodes ?d') b = Some m' \<and> dtype m' = dtype m"
    unfolding dn' using na nb by (auto simp: update_conv' put_prop_def)
  then obtain m' where m': "map_of (dnodes ?d') b = Some m'" "dtype m' = dtype m" by blast
  from xpath_of_root(1)[OF f m'(1)] xpath_of_root(2)[OF f m'(1), of fuel] m'(2) run
  show ?thesis by auto
qed

text \<open>
  Claim C2. In a document where \<open>A\<close> is the only node that holds \<open>B\<close> in an owned
  reference, the parent of \<open>B\<close> is \<open>A\<close>; this is so whether the child is created before or
  after the owning node. When moreover \<open>P\<close> is the only owned property of \<open>A\<close> that holds
  \<open>B\<close>, then after setting \<open>P\<close> to a value that does not hold \<open>B\<close> (null, the empty array,
  another array), and after deleting the position of \<open>B\<close> from the array \<open>P\<close> in which \<open>B\<close>
  occurs once, \<open>B\<close> has no parent and its xpath is its own entry of id and type.
\<close>

theorem parent_follows_owned_reference:
  "((a, n) \<in> set (dnodes d) \<and> owns sch n b \<and>
      (\<forall>(i', n')\<in>set (dnodes d). owns sch n' b \<longrightarrow> i' = a) \<longrightarrow>
      getParent sch d b = Some a) \<and>
   (a \<noteq> b \<and> owns sch n b \<and> \<not> owns sch m b \<and>
      (\<forall>(i', n')\<in>set (dnodes d0). \<not> owns sch n' b) \<longrightarrow>
      getParent sch (doc_create a n (doc_create b m d0)) b = Some a \<and>
      getParent sch (doc_create b m (doc_create a n d0)) b = Some a) \<and>
   (distinct (map fst (dnodes d)) \<and> map_of (dnodes d) a = Some n \<and> map_of (dnodes d) b = Some m \<and>
      (\<forall>(i', n')\<in>set (dnodes d). owns sch n' b \<longrightarrow> i' = a) \<and>
      distinct (map fst (props n)) \<and>
      (\<forall>(q, v)\<in>set (props n). (dtype n, q) \<in> set (owned sch) \<and> holds v b \<longrightarrow> q = p) \<longrightarrow>
      (\<not> holds v' b \<longrightarrow>
         (\<exists>d'. doc_set a p v' d = Inr d' \<and> getParent sch d' b = None \<and>
               map_option toArray (getXpath (Suc fuel) sch d' b) =
                 Some [\<lparr>xid = b, xtype = dtype m, xproperty = None, xpos = None\<rparr>])) \<and>
      (get_prop n p = Ids l \<and> b \<notin> set (take pos l @ drop (Suc pos) l) \<longrightarrow>
         (\<exists>d'. doc_update a p (ArrayDelete pos) d = Inr d' \<and> getParent sch d' b = None \<and>
               map_option toArray (getXpath (Suc fuel) sch d' b) =
                 Some [\<lparr>xid = b, xtype = dtype m, xproperty = None, xpos = None\<rparr>])))"
proof (intro conjI impI)
  assume "(a, n) \<in> set (dnodes d) \<and> owns sch n b \<and>
      (\<forall>(i', n')\<in>set (dnodes d). owns sch n' b \<longrightarrow> i' = a)"
  then show "getParent sch d b = Some a" using getParent_only_owner by blast
next
  assume h: "a \<noteq> b \<and> owns sch n b \<and> \<not> owns sch m b \<and>
      (\<forall>(i', n')\<in>set (dnodes d0). \<not> owns sch n' b)"
  let ?d1 = "doc_create a n (doc_create b m d0)"
  have s1: "set (dnodes ?d1) \<subseteq> insert (a, n) (insert (b, m) (set (dnodes d0)))"
    unfolding dnodes_doc_create using set_update_subset[of a n] set_update_subset[of b m "dnodes d0"]
    by blast
  have m1: "(a, n) \<in> set (dnodes ?d1)" unfolding dnodes_doc_create by (rule in_update_same)
  have "\<forall>(i', n')\<in>set (dnodes ?d1). owns sch n' b \<longrightarrow> i' = a" using s1 h by auto
  with m1 h show "getParent sch ?d1 b = Some a" using getParent_only_owner by blast
next
  assume h: "a \<noteq> b \<and> owns sch n b \<and> \<not> owns sch m b \<and>
      (\<forall>(i', n')\<in>set (dnodes d0). \<not> owns sch n' b)"
  let ?d2 = "doc_create b m (doc_create a n d0)"
  have s2: "set (dnodes ?d2) \<subseteq> insert (b, m) (insert (a, n) (set (dnodes d0)))"
    unfolding dnodes_doc_create using set_update_subset[of b m] set_update_subset[of a n "dnodes d0"]
    by blast
  have m2: "(a, n) \<in> set (dnodes ?d2)"
    unfolding dnodes_doc_create
    using in_update_other[OF in_update_same[of a n "dnodes d0"], of b m] h by simp
  have "\<forall>(i', n')\<in>set (dnodes ?d2). owns sch n' b \<longrightarrow> i' = a" using s2 h by auto
  with m2 h show "getParent sch ?d2 b = Some a" using getParent_only_owner by blast
next
  assume h: "distinct (map fst (dnodes d)) \<and> map_of (dnodes d) a = Some n \<and> map_of (dnodes d) b = Some m \<and>
      (\<forall>(i', n')\<in>set (dnodes d). owns sch n' b \<longrightarrow> i' = a) \<and>
      distinct (map fst (props n)) \<and>
      (\<forall>(q, v)\<in>set (props n). (dtype n, q) \<in> set (owned sch) \<and> holds v b \<longrightarrow> q = p)"
    and nh: "\<not> holds v' b"
  from h nh show "\<exists>d'. doc_set a p v' d = Inr d' \<and> getParent sch d' b = None \<and>
               map_option toArray (getXpath (Suc fuel) sch d' b) =
                 Some [\<lparr>xid = b, xtype = dtype m, xproperty = None, xpos = None\<rparr>]"
    using doc_set_removes_parent[of d a n b m sch p v' fuel] by blast
next
  assume h: "distinct (map fst (dnodes d)) \<and> map_of (dnodes d) a = Some n \<and> map_of (dnodes d) b = Some m \<and>
      (\<forall>(i', n')\<in>set (dnodes d). owns sch n' b \<longrightarrow> i' = a) \<and>
      distinct (map fst (props n)) \<and>
      (\<forall>(q, v)\<in>set (props n). (dtype n, q) \<in> set (owned sch) \<and> holds v b \<longrightarrow> q = p)"
    and g: "get_prop n p = Ids l \<and> b \<notin> set (take pos l @ drop (Suc pos) l)"
  have nh: "\<not> holds (Ids (take pos l @ drop (Suc pos) l)) b" using g by simp
  have "doc_update a p (ArrayDelete pos) d = doc_set a p (Ids (take pos l @ drop (Suc pos) l)) d"
    using h g by (simp add: doc_update_def)
  then show "\<exists>d'. doc_update a p (ArrayDelete pos) d = Inr d' \<and> getParent sch d' b = None \<and>
               map_option toArray (getXpath (Suc fuel) sch d' b) =
                 Some [\<lparr>xid = b, xtype = dtype m, xproperty = None, xpos = None\<rparr>]"
    using h nh doc_set_removes_parent[of d a n b m sch p "Ids (take pos l @ drop (Suc pos) l)" fuel]
    by auto
qed

lemma array_document_nodes:
  "dnodes array_document = [(''b'', child_b), (''c'', child_b), (''a'', parent_array)]"
  by (simp add: array_document_def doc_create_def notify_all_def empty_document_def)

lemma single_document_nodes:
  "dnodes single_document = [(''b'', child_b), (''a'', parent_single)]"
  by (simp add: single_document_def doc_create_def notify_all_def empty_document_def)

theorem parent_follows_owned_reference_witness:
  "(''a'', parent_array) \<in> set (dnodes array_document) \<and> owns parent_schema parent_array ''b'' \<and>
   \<not> owns parent_schema child_b ''b'' \<and>
   dnodes array_document = [(''b'', child_b), (''c'', child_b), (''a'', parent_array)] \<and>
   getParent parent_schema array_document ''b'' = Some ''a'' \<and>
   getParent parent_schema
     (doc_create ''a'' parent_array (doc_create ''b'' child_b empty_document)) ''b'' = Some ''a'' \<and>
   getParent parent_schema
     (doc_create ''b'' child_b (doc_create ''a'' parent_array empty_document)) ''b'' = Some ''a'' \<and>
   (\<exists>d'. doc_set ''a'' ''foo'' (Ids []) array_document = Inr d' \<and>
         getParent parent_schema d' ''b'' = None \<and>
         map_option toArray (getXpath 3 parent_schema d' ''b'') =
           Some [\<lparr>xid = ''b'', xtype = ''child'', xproperty = None, xpos = None\<rparr>]) \<and>
   (\<exists>d'. doc_update ''a'' ''foo'' (ArrayDelete 0) array_document = Inr d' \<and>
         getParent parent_schema d' ''b'' = None \<and>
         map_option toArray (getXpath 3 parent_schema d' ''b'') =
           Some [\<lparr>xid = ''b'', xtype = ''child'', xproperty = None, xpos = None\<rparr>]) \<and>
   (\<exists>d'. doc_set ''a'' ''foo'' Null single_document = Inr d' \<and>
         getParent parent_schema d' ''b'' = None \<and>
         map_option toArray (getXpath 3 parent_schema d' ''b'') =
           Some [\<lparr>xid = ''b'', xtype = ''child'', xproperty = None, xpos = None\<rparr>])"
proof -
  have o1: "owns parent_schema parent_array ''b''" "\<not> owns parent_schema child_b ''b''"
    "owns parent_schema parent_single ''b''"
    by (simp_all add: owns_def parent_schema_def parent_array_def child_b_def parent_single_def)
  have h1: "(''a'', parent_array) \<in> set (dnodes array_document)"
    by (simp add: array_document_nodes)
  have h2: "\<forall>(i', n')\<in>set (dnodes array_document). owns parent_schema n' ''b'' \<longrightarrow> i' = ''a''"
    using o1 by (simp add: array_document_nodes)
  have h3: "\<forall>(i', n')\<in>set (dnodes empty_document). \<not> owns parent_schema n' ''b''"
    by (simp add: empty_document_def)
  have h4: "distinct (map fst (dnodes array_document))"
    "map_of (dnodes array_document) ''a'' = Some parent_array"
    "map_of (dnodes array_document) ''b'' = Some child_b"
    "distinct (map fst (props parent_array))"
    "\<forall>(q, v)\<in>set (props parent_array).
        (dtype parent_array, q) \<in> set (owned parent_schema) \<and> holds v ''b'' \<longrightarrow> q = ''foo''"
    "get_prop parent_array ''foo'' = Ids [''b'', ''c'']"
    "''b'' \<notin> set (take 0 [''b'', ''c''] @ drop (Suc 0) [''b'', ''c''])"
    "\<not> holds (Ids []) ''b''" "dtype child_b = ''child''"
    by (simp_all add: array_document_nodes parent_array_def get_prop_def child_b_def)
  have g1: "distinct (map fst (dnodes single_document))"
    "map_of (dnodes single_document) ''a'' = Some parent_single"
    "map_of (dnodes single_document) ''b'' = Some child_b"
    "\<forall>(i', n')\<in>set (dnodes single_document). owns parent_schema n' ''b'' \<longrightarrow> i' = ''a''"
    "distinct (map fst (props parent_single))"
    "\<forall>(q, v)\<in>set (props parent_single).
        (dtype parent_single, q) \<in> set (owned parent_schema) \<and> holds v ''b'' \<longrightarrow> q = ''foo''"
    "\<not> holds Null ''b''"
    using o1 by (simp_all add: single_document_nodes parent_single_def)
  note A = parent_follows_owned_reference[where a = "''a''" and n = parent_array
      and d = array_document and sch = parent_schema and b = "''b''" and m = child_b
      and ?d0.0 = empty_document and p = "''foo''" and v' = "Ids []" and l = "[''b'', ''c'']"
      and pos = 0 and fuel = 2]
  note B = parent_follows_owned_reference[where a = "''a''" and n = parent_single
      and d = single_document and sch = parent_schema and b = "''b''" and m = child_b
      and ?d0.0 = empty_document and p = "''foo''" and v' = Null and l = "[]"
      and pos = 0 and fuel = 2]
  have three: "Suc 2 = 3" by simp
  show ?thesis
    using A B o1 h1 h2 h3 h4 g1 array_document_nodes unfolding three by simp
qed


end
